theory Spec2Isabelle
  imports Main "HOL-Library.Word" "HOL-Library.AList"
begin

unbundle bit_operations_syntax

section \<open>Values of the runtime\<close>

text \<open>
  A JavaScript string is a sequence of UTF-16 code units, a Buffer a sequence of bytes.
  A \<open>Date\<close> is its number of milliseconds since the epoch. A \<open>Map\<close> keeps its keys in
  insertion order and \<open>set\<close> on a present key replaces the value in place: an association
  list under \<open>AList.update\<close>.
\<close>

type_synonym jsstring = "16 word list"
type_synonym buffer = "8 word list"
type_synonym date = nat

definition str :: "string \<Rightarrow> jsstring" where
  "str s = map (\<lambda>c. word_of_nat (of_char c)) s"

definition truthy :: "jsstring option \<Rightarrow> bool" where
  "truthy v = (case v of None \<Rightarrow> False | Some s \<Rightarrow> s \<noteq> [])"

definition or_default :: "jsstring option \<Rightarrow> jsstring \<Rightarrow> jsstring" where
  "or_default v d = (case v of None \<Rightarrow> d | Some s \<Rightarrow> if s = [] then d else s)"

definition or_default_num :: "nat option \<Rightarrow> nat \<Rightarrow> nat" where
  "or_default_num v d = (case v of None \<Rightarrow> d | Some n \<Rightarrow> if n = 0 then d else n)"

text \<open>
  Every \<open>throw new Error(...)\<close> of the two managers, named after the error taxonomy:
  \<open>Connection ... not found\<close> is \<open>SessionNotFound\<close>, \<open>Connection ... is not available\<close> is
  \<open>SessionUnavailable\<close>, \<open>Invalid public key format\<close> and \<open>Unable to determine key type\<close>
  are the two \<open>KeyFormatError\<close>s, \<open>Key ... not found\<close> is \<open>KeyNotFound\<close>,
  \<open>Unsupported key type\<close> is \<open>UnsupportedKeyType\<close>, \<open>Encryption key not initialized\<close> is
  \<open>EncryptionKeyUnavailable\<close>. An error handed over by the transport or the file system is
  \<open>TransportError\<close>.
\<close>

datatype key_format_reason = InvalidPublicKeyFormat | UnableToDetermineKeyType

datatype error =
    SessionNotFound
  | SessionUnavailable
  | TransportError
  | KeyFormatError key_format_reason
  | KeyNotFound
  | UnsupportedKeyType
  | EncryptionKeyUnavailable

section \<open>SSHManager\<close>

datatype status = Connected | Disconnected | Connecting | StatusError

record SSHConnection =
  conn_id :: jsstring
  host :: jsstring
  port :: nat
  username :: jsstring
  status :: status
  connectedAt :: "date option"
  lastActivity :: "date option"
  client :: "nat option"
  sftp :: "nat option"

record ConnectConfig =
  cfg_host :: "jsstring option"
  cfg_port :: "nat option"
  cfg_username :: "jsstring option"
  cfg_password :: "jsstring option"
  cfg_privateKey :: "jsstring option"
  cfg_passphrase :: "jsstring option"

record CommandResult =
  stdout :: jsstring
  stderr :: jsstring
  exitCode :: int
  duration :: int

datatype file_kind = File | Directory

text \<open>
  A \<open>FileInfo\<close> as \<open>listFiles\<close> builds it: the size is \<open>undefined\<close> (\<open>None\<close>) when the remote
  attributes carry none, and the modification time is an invalid \<open>Date\<close> (\<open>None\<close>) when they
  carry no \<open>mtime\<close>.
\<close>

record FileInfo =
  fi_name :: jsstring
  fi_size :: "nat option"
  fi_type :: file_kind
  permissions :: jsstring
  modified :: "date option"

text \<open>What the manager emits to its listeners, and what it asks of the transport and the timers.\<close>

datatype notification =
    ConnectionConnecting jsstring
  | ConnectionConnected jsstring
  | ConnectionError jsstring
  | ConnectionDisconnected jsstring
  | ConnectionReconnecting jsstring nat
  | ConnectionReconnectFailed jsstring nat

datatype io_call =
    ClientConnect nat ConnectConfig nat nat nat
  | ClientEnd nat
  | ClientDestroy nat
  | ClientExec nat jsstring
  | ClientSftp nat
  | SftpReaddir nat jsstring
  | SftpCreateWriteStream nat jsstring
  | SftpCreateReadStream nat jsstring
  | SetTimeout nat

record manager =
  connections :: "(jsstring \<times> SSHConnection) list"
  reconnectAttempts :: "(jsstring \<times> nat) list"
  onceClose :: "jsstring list"
  emitted :: "notification list"
  io :: "io_call list"

definition maxReconnectAttempts :: nat where
  "maxReconnectAttempts = 3"

definition new_manager :: manager where
  "new_manager = \<lparr>connections = [], reconnectAttempts = [], onceClose = [], emitted = [], io = []\<rparr>"

definition emit :: "notification \<Rightarrow> manager \<Rightarrow> manager" where
  "emit n m = m\<lparr>emitted := emitted m @ [n]\<rparr>"

definition call :: "io_call \<Rightarrow> manager \<Rightarrow> manager" where
  "call c m = m\<lparr>io := io m @ [c]\<rparr>"

definition set_connection :: "jsstring \<Rightarrow> SSHConnection \<Rightarrow> manager \<Rightarrow> manager" where
  "set_connection k c m = m\<lparr>connections := AList.update k c (connections m)\<rparr>"

subsection \<open>connect and the three listeners it installs\<close>

text \<open>
  \<open>connect\<close> up to the call of \<open>client.connect\<close>: the identifier comes from \<open>uuidv4\<close>, the
  client handle from \<open>new Client()\<close>, the time from \<open>new Date()\<close>. The promise it returns is
  settled by the listeners below.
\<close>

definition connect :: "manager \<Rightarrow> ConnectConfig \<Rightarrow> jsstring \<Rightarrow> nat \<Rightarrow> date \<Rightarrow> SSHConnection \<times> manager" where
  "connect m config connectionId h now =
     (let connection = \<lparr>conn_id = connectionId,
                         host = or_default (cfg_host config) (str ''localhost''),
                         port = or_default_num (cfg_port config) 22,
                         username = or_default (cfg_username config) (str ''root''),
                         status = Connecting,
                         connectedAt = Some now,
                         lastActivity = None,
                         client = None,
                         sftp = None\<rparr>;
          m1 = emit (ConnectionConnecting connectionId) (set_connection connectionId connection m);
          connection' = connection\<lparr>client := Some h\<rparr>;
          m2 = call (ClientConnect h config 30000 3 20000) (set_connection connectionId connection' m1)
      in (connection', m2))"

definition on_ready :: "manager \<Rightarrow> jsstring \<Rightarrow> date \<Rightarrow> manager" where
  "on_ready m connectionId now =
     (case map_of (connections m) connectionId of
        None \<Rightarrow> m
      | Some connection \<Rightarrow>
          emit (ConnectionConnected connectionId)
            (set_connection connectionId (connection\<lparr>status := Connected, connectedAt := Some now\<rparr>) m))"

definition on_error :: "manager \<Rightarrow> jsstring \<Rightarrow> manager" where
  "on_error m connectionId =
     (case map_of (connections m) connectionId of
        None \<Rightarrow> m
      | Some connection \<Rightarrow>
          emit (ConnectionError connectionId)
            (set_connection connectionId (connection\<lparr>status := StatusError\<rparr>) m))"

text \<open>
  A close of the transport runs the listener of \<open>connect\<close> and then every \<open>onClose\<close> that a
  \<open>disconnect\<close> call registered with \<open>once\<close>; each of them sets the status and emits.
\<close>

definition close_listener :: "jsstring \<Rightarrow> manager \<Rightarrow> manager" where
  "close_listener connectionId m =
     (case map_of (connections m) connectionId of
        None \<Rightarrow> m
      | Some connection \<Rightarrow>
          emit (ConnectionDisconnected connectionId)
            (set_connection connectionId (connection\<lparr>status := Disconnected\<rparr>) m))"

definition on_close :: "manager \<Rightarrow> jsstring \<Rightarrow> manager" where
  "on_close m connectionId =
     (let pending = filter (\<lambda>k. k = connectionId) (onceClose m);
          m1 = close_listener connectionId m;
          m2 = fold (\<lambda>_. close_listener connectionId) pending m1
      in m2\<lparr>onceClose := filter (\<lambda>k. k \<noteq> connectionId) (onceClose m2)\<rparr>)"

subsection \<open>disconnect, disconnectAll\<close>

text \<open>
  The promise a call hands back, as it stands when the code of the call has run: settled with
  an error or a value, or still pending (\<open>None\<close>). The promise of \<open>disconnect\<close> is pending
  until the close event runs the \<open>onClose\<close> it registered, which resolves it.
\<close>

type_synonym 'a promise = "(error + 'a) option"

definition disconnect :: "manager \<Rightarrow> jsstring \<Rightarrow> unit promise \<times> manager" where
  "disconnect m connectionId =
     (case map_of (connections m) connectionId of
        None \<Rightarrow> (Some (Inl SessionNotFound), m)
      | Some connection \<Rightarrow>
          (case client connection of
             None \<Rightarrow> (Some (Inl SessionNotFound), m)
           | Some h \<Rightarrow>
               (None, call (SetTimeout 5000)
                        (call (ClientEnd h) (m\<lparr>onceClose := onceClose m @ [connectionId]\<rparr>)))))"

text \<open>The timer of \<open>disconnect\<close>, five seconds later.\<close>

definition on_disconnect_timeout :: "manager \<Rightarrow> jsstring \<Rightarrow> manager" where
  "on_disconnect_timeout m connectionId =
     (case map_of (connections m) connectionId of
        None \<Rightarrow> m
      | Some connection \<Rightarrow>
          (case client connection of
             None \<Rightarrow> m
           | Some h \<Rightarrow> if status connection \<noteq> Disconnected then call (ClientDestroy h) m else m))"

definition disconnectAll :: "manager \<Rightarrow> manager" where
  "disconnectAll m = fold (\<lambda>k acc. snd (disconnect acc k)) (map fst (connections m)) m"

subsection \<open>executeCommand\<close>

text \<open>
  What the transport answers to \<open>client.exec\<close>: an error in the callback, or a stream that
  closes after some output with an exit code (\<open>code || 0\<close>: an absent code counts as 0).
\<close>

datatype exec_response = ExecFailed | ExecClosed jsstring jsstring "int option" date date

definition executeCommand ::
  "manager \<Rightarrow> jsstring \<Rightarrow> jsstring \<Rightarrow> exec_response \<Rightarrow> (error + CommandResult) \<times> manager" where
  "executeCommand m connectionId command resp =
     (case map_of (connections m) connectionId of
        None \<Rightarrow> (Inl SessionUnavailable, m)
      | Some connection \<Rightarrow>
          (case client connection of
             None \<Rightarrow> (Inl SessionUnavailable, m)
           | Some h \<Rightarrow>
               if status connection \<noteq> Connected then (Inl SessionUnavailable, m)
               else
                 (let m1 = call (ClientExec h command) m in
                  case resp of
                    ExecFailed \<Rightarrow> (Inl TransportError, m1)
                  | ExecClosed out err code startTime endTime \<Rightarrow>
                      (Inr \<lparr>stdout = out, stderr = err,
                            exitCode = (case code of None \<Rightarrow> 0 | Some c \<Rightarrow> c),
                            duration = int endTime - int startTime\<rparr>,
                       set_connection connectionId (connection\<lparr>lastActivity := Some endTime\<rparr>) m1))))"

subsection \<open>getSFTP, listFiles\<close>

datatype sftp_response = SftpFailed | SftpOpened nat

definition getSFTP :: "manager \<Rightarrow> jsstring \<Rightarrow> sftp_response \<Rightarrow> (error + nat) \<times> manager" where
  "getSFTP m connectionId resp =
     (case map_of (connections m) connectionId of
        None \<Rightarrow> (Inl SessionUnavailable, m)
      | Some connection \<Rightarrow>
          (case client connection of
             None \<Rightarrow> (Inl SessionUnavailable, m)
           | Some h \<Rightarrow>
               if status connection \<noteq> Connected then (Inl SessionUnavailable, m)
               else
                 (case sftp connection of
                    Some s \<Rightarrow> (Inr s, m)
                  | None \<Rightarrow>
                      (let m1 = call (ClientSftp h) m in
                       case resp of
                         SftpFailed \<Rightarrow> (Inl TransportError, m1)
                       | SftpOpened s \<Rightarrow>
                           (Inr s, set_connection connectionId (connection\<lparr>sftp := Some s\<rparr>) m1)))))"

text \<open>
  An entry of \<open>readdir\<close>: the name and the attributes \<open>size\<close>, \<open>mode\<close>, \<open>mtime\<close> (seconds).
  The transport library sets an attribute only when the server sent it; an attribute it did
  not send is \<open>undefined\<close> (\<open>None\<close>). \<open>isDirectory\<close> is the library's test of the file-type
  bits of the mode: \<open>(mode & S_IFMT) === S_IFDIR\<close>, with \<open>S_IFMT = 0o170000\<close> and
  \<open>S_IFDIR = 0o040000\<close>; on an undefined mode the left side is 0.
\<close>

record attrs =
  a_size :: "nat option"
  a_mode :: "nat option"
  a_mtime :: "nat option"

record dir_item =
  filename :: jsstring
  item_attrs :: attrs

definition isDirectory :: "attrs \<Rightarrow> bool" where
  "isDirectory a =
     (case a_mode a of None \<Rightarrow> False | Some mode \<Rightarrow> (mode AND 61440) = 16384)"

text \<open>\<open>Number.prototype.toString(8)\<close> on a non-negative integer.\<close>

fun octal_digits :: "nat \<Rightarrow> nat list" where
  "octal_digits n = (if n < 8 then [n] else octal_digits (n div 8) @ [n mod 8])"

declare octal_digits.simps [simp del]

definition digit_char :: "nat \<Rightarrow> 16 word" where
  "digit_char d = word_of_nat (48 + d)"

definition toString8 :: "nat \<Rightarrow> jsstring" where
  "toString8 n = map digit_char (octal_digits n)"

text \<open>
  The function \<open>listFiles\<close> maps over the list of \<open>readdir\<close>. On an entry without a mode,
  \<open>item.attrs.mode.toString(8)\<close> throws (\<open>None\<close>), and so does the \<open>map\<close> over a list that
  holds such an entry. \<open>new Date(undefined * 1000)\<close> is an invalid date.
\<close>

definition to_file_info :: "dir_item \<Rightarrow> FileInfo option" where
  "to_file_info item =
     (case a_mode (item_attrs item) of
        None \<Rightarrow> None
      | Some mode \<Rightarrow>
          Some \<lparr>fi_name = filename item,
                fi_size = a_size (item_attrs item),
                fi_type = (if isDirectory (item_attrs item) then Directory else File),
                permissions = toString8 mode,
                modified = map_option (\<lambda>mtime. mtime * 1000) (a_mtime (item_attrs item))\<rparr>)"

fun file_infos :: "dir_item list \<Rightarrow> FileInfo list option" where
  "file_infos [] = Some []"
| "file_infos (item # items) =
     (case to_file_info item of
        None \<Rightarrow> None
      | Some f \<Rightarrow> map_option ((#) f) (file_infos items))"

datatype readdir_response = ReaddirFailed | ReaddirList "dir_item list"

text \<open>
  The exception of the \<open>map\<close> is thrown inside the callback of \<open>readdir\<close>, where neither
  \<open>resolve\<close> nor \<open>reject\<close> is reached: the promise of \<open>listFiles\<close> then stays pending for ever.
\<close>

definition listFiles ::
  "manager \<Rightarrow> jsstring \<Rightarrow> jsstring \<Rightarrow> sftp_response \<Rightarrow> readdir_response
     \<Rightarrow> FileInfo list promise \<times> manager" where
  "listFiles m connectionId path sresp rresp =
     (case getSFTP m connectionId sresp of
        (Inl e, m1) \<Rightarrow> (Some (Inl e), m1)
      | (Inr s, m1) \<Rightarrow>
          (let m2 = call (SftpReaddir s path) m1 in
           case rresp of
             ReaddirFailed \<Rightarrow> (Some (Inl TransportError), m2)
           | ReaddirList items \<Rightarrow> (map_option Inr (file_infos items), m2)))"

text \<open>
  \<open>uploadFile\<close> and \<open>downloadFile\<close>: the remote stream is opened on the file-transfer
  channel, and the piped transfer either runs to its end or reports an error.
\<close>

definition uploadFile ::
  "manager \<Rightarrow> jsstring \<Rightarrow> jsstring \<Rightarrow> jsstring \<Rightarrow> sftp_response \<Rightarrow> bool
     \<Rightarrow> (error + bool) \<times> manager" where
  "uploadFile m connectionId localPath remotePath sresp stream_ok =
     (case getSFTP m connectionId sresp of
        (Inl e, m1) \<Rightarrow> (Inl e, m1)
      | (Inr s, m1) \<Rightarrow>
          (let m2 = call (SftpCreateWriteStream s remotePath) m1 in
           if stream_ok then (Inr True, m2) else (Inl TransportError, m2)))"

definition downloadFile ::
  "manager \<Rightarrow> jsstring \<Rightarrow> jsstring \<Rightarrow> jsstring \<Rightarrow> sftp_response \<Rightarrow> bool
     \<Rightarrow> (error + bool) \<times> manager" where
  "downloadFile m connectionId remotePath localPath sresp stream_ok =
     (case getSFTP m connectionId sresp of
        (Inl e, m1) \<Rightarrow> (Inl e, m1)
      | (Inr s, m1) \<Rightarrow>
          (let m2 = call (SftpCreateReadStream s remotePath) m1 in
           if stream_ok then (Inr True, m2) else (Inl TransportError, m2)))"

subsection \<open>getActiveConnections, getConnection\<close>

definition getActiveConnections :: "manager \<Rightarrow> SSHConnection list" where
  "getActiveConnections m = map snd (connections m)"

definition getConnection :: "manager \<Rightarrow> jsstring \<Rightarrow> SSHConnection option" where
  "getConnection m connectionId = map_of (connections m) connectionId"

subsection \<open>attemptReconnect\<close>

text \<open>
  \<open>attemptReconnect\<close> up to its \<open>await\<close>: it answers the delay in milliseconds it asks of
  \<open>setTimeout\<close> together with the attempt count it read, which is what the rest of the
  function goes on with, or nothing when it gave up. \<open>attemptReconnect_resume\<close> is that rest,
  run when the timer fires on the state the manager has by then: it reads the session and
  emits; the source has no other statement there (its comment: the implementation would depend
  on storing the original connection configuration).
\<close>

definition attempts_of :: "manager \<Rightarrow> jsstring \<Rightarrow> nat" where
  "attempts_of m connectionId =
     (case map_of (reconnectAttempts m) connectionId of None \<Rightarrow> 0 | Some n \<Rightarrow> n)"

definition attemptReconnect :: "manager \<Rightarrow> jsstring \<Rightarrow> (nat \<times> nat) option \<times> manager" where
  "attemptReconnect m connectionId =
     (let attempts = attempts_of m connectionId in
      if attempts \<ge> maxReconnectAttempts
      then (None, emit (ConnectionReconnectFailed connectionId attempts) m)
      else (Some (2 ^ attempts * 1000, attempts),
            call (SetTimeout (2 ^ attempts * 1000))
              (m\<lparr>reconnectAttempts := AList.update connectionId (attempts + 1) (reconnectAttempts m)\<rparr>)))"

definition attemptReconnect_resume :: "manager \<Rightarrow> jsstring \<Rightarrow> nat \<Rightarrow> manager" where
  "attemptReconnect_resume m connectionId attempts =
     (case map_of (connections m) connectionId of
        None \<Rightarrow> m
      | Some connection \<Rightarrow> emit (ConnectionReconnecting connectionId (attempts + 1)) m)"

subsection \<open>The manager as a transition system\<close>

text \<open>
  One action per call of the manager and per event of the transport or of a timer; what the
  environment answers travels with the action.
\<close>

datatype action =
    OpConnect ConnectConfig jsstring nat date
  | OpReady jsstring date
  | OpError jsstring
  | OpClose jsstring
  | OpDisconnect jsstring
  | OpDisconnectTimeout jsstring
  | OpDisconnectAll
  | OpExecute jsstring jsstring exec_response
  | OpGetSFTP jsstring sftp_response
  | OpListFiles jsstring jsstring sftp_response readdir_response
  | OpUploadFile jsstring jsstring jsstring sftp_response bool
  | OpDownloadFile jsstring jsstring jsstring sftp_response bool
  | OpReconnect jsstring
  | OpReconnectResume jsstring nat

fun step :: "manager \<Rightarrow> action \<Rightarrow> manager" where
  "step m (OpConnect config k h now) = snd (connect m config k h now)"
| "step m (OpReady k now) = on_ready m k now"
| "step m (OpError k) = on_error m k"
| "step m (OpClose k) = on_close m k"
| "step m (OpDisconnect k) = snd (disconnect m k)"
| "step m (OpDisconnectTimeout k) = on_disconnect_timeout m k"
| "step m OpDisconnectAll = disconnectAll m"
| "step m (OpExecute k command resp) = snd (executeCommand m k command resp)"
| "step m (OpGetSFTP k resp) = snd (getSFTP m k resp)"
| "step m (OpListFiles k path sresp rresp) = snd (listFiles m k path sresp rresp)"
| "step m (OpUploadFile k localPath remotePath sresp ok) =
     snd (uploadFile m k localPath remotePath sresp ok)"
| "step m (OpDownloadFile k remotePath localPath sresp ok) =
     snd (downloadFile m k remotePath localPath sresp ok)"
| "step m (OpReconnect k) = snd (attemptReconnect m k)"
| "step m (OpReconnectResume k attempts) = attemptReconnect_resume m k attempts"

definition run :: "manager \<Rightarrow> action list \<Rightarrow> manager" where
  "run m acts = foldl step m acts"

text \<open>The state after \<open>n\<close> calls of the reconnect helper for one session.\<close>

definition reconnect_calls :: "nat \<Rightarrow> manager \<Rightarrow> jsstring \<Rightarrow> manager" where
  "reconnect_calls n m k = ((\<lambda>s. snd (attemptReconnect s k)) ^^ n) m"

text \<open>
  One whole run of the reconnect helper: the part before the wait, whatever happens to the
  manager during the wait, and the part after the wait.
\<close>

definition reconnect_through :: "manager \<Rightarrow> jsstring \<Rightarrow> action list \<Rightarrow> manager" where
  "reconnect_through m k during =
     (case attemptReconnect m k of
        (None, m1) \<Rightarrow> m1
      | (Some (delay, attempts), m1) \<Rightarrow> attemptReconnect_resume (run m1 during) k attempts)"

definition ids :: "manager \<Rightarrow> jsstring set" where
  "ids m = fst ` set (connections m)"

definition keyed :: "manager \<Rightarrow> bool" where
  "keyed m = (\<forall>(k, c) \<in> set (connections m). conn_id c = k)"

definition status_of :: "manager \<Rightarrow> jsstring \<Rightarrow> status option" where
  "status_of m k = map_option status (map_of (connections m) k)"

text \<open>
  The status a transport event leaves a session in, as the listeners of \<open>connect\<close> and of
  \<open>disconnect\<close> set it; \<open>reuses_id\<close> tells a \<open>connect\<close> that registers under an identifier
  anew (\<open>uuidv4\<close> does not hand out an identifier twice).
\<close>

fun status_after :: "action \<Rightarrow> jsstring \<Rightarrow> status \<Rightarrow> status" where
  "status_after (OpReady k' now) k s = (if k' = k then Connected else s)"
| "status_after (OpError k') k s = (if k' = k then StatusError else s)"
| "status_after (OpClose k') k s = (if k' = k then Disconnected else s)"
| "status_after a k s = s"

fun reuses_id :: "action \<Rightarrow> jsstring \<Rightarrow> bool" where
  "reuses_id (OpConnect config k' h now) k = (k' = k)"
| "reuses_id a k = False"

text \<open>Reading a permission string back: its value as an octal numeral, and its last three digits.\<close>

definition from_octal :: "jsstring \<Rightarrow> nat" where
  "from_octal s = foldl (\<lambda>acc d. acc * 8 + (unat d - 48)) 0 s"

definition last3 :: "jsstring \<Rightarrow> jsstring" where
  "last3 s = drop (length s - 3) s"

definition digits_value :: "nat list \<Rightarrow> nat" where
  "digits_value ds = foldl (\<lambda>acc d. acc * 8 + d) 0 ds"

text \<open>A configuration and a directory listing to run the manager on.\<close>

definition example_config :: ConnectConfig where
  "example_config = \<lparr>cfg_host = Some (str ''h''), cfg_port = Some 22, cfg_username = Some (str ''u''),
      cfg_password = Some (str ''p''), cfg_privateKey = None, cfg_passphrase = None\<rparr>"

definition example_items :: "dir_item list" where
  "example_items =
     [\<lparr>filename = str ''src'',
       item_attrs = \<lparr>a_size = Some 4096, a_mode = Some 16877, a_mtime = Some 1700000000\<rparr>\<rparr>,
      \<lparr>filename = str ''a.txt'',
       item_attrs = \<lparr>a_size = Some 12, a_mode = Some 33188, a_mtime = None\<rparr>\<rparr>]"

definition example_item_without_mode :: dir_item where
  "example_item_without_mode =
     \<lparr>filename = str ''x'',
      item_attrs = \<lparr>a_size = Some 1, a_mode = None, a_mtime = Some 1700000000\<rparr>\<rparr>"

section \<open>Strings and buffers of the runtime\<close>

text \<open>
  \<open>String.prototype.trim\<close> strips the white space and line terminators of ECMAScript;
  \<open>split(' ')\<close> cuts at every single space; \<open>includes\<close> looks for a contiguous occurrence.
\<close>

definition is_js_space :: "16 word \<Rightarrow> bool" where
  "is_js_space c = (unat c \<in> {9, 10, 11, 12, 13, 32, 160, 5760, 8232, 8233, 8239, 8287, 12288, 65279}
                    \<or> (8192 \<le> unat c \<and> unat c \<le> 8202))"

definition trim :: "jsstring \<Rightarrow> jsstring" where
  "trim s = rev (dropWhile is_js_space (rev (dropWhile is_js_space s)))"

fun split_on :: "(16 word \<Rightarrow> bool) \<Rightarrow> jsstring \<Rightarrow> jsstring list" where
  "split_on P [] = [[]]"
| "split_on P (c # cs) =
     (if P c then [] # split_on P cs
      else (case split_on P cs of p # ps \<Rightarrow> (c # p) # ps | [] \<Rightarrow> [[c]]))"

definition split_space :: "jsstring \<Rightarrow> jsstring list" where
  "split_space s = split_on (\<lambda>c. c = 32) s"

fun includes_js :: "jsstring \<Rightarrow> jsstring \<Rightarrow> bool" where
  "includes_js [] p = (p = [])"
| "includes_js (c # cs) p = (take (length p) (c # cs) = p \<or> includes_js cs p)"

subsection \<open>UTF-8\<close>

text \<open>
  \<open>Buffer.from(s, 'utf8')\<close>: a surrogate pair is one code point of four bytes, any other
  surrogate code unit is written as U+FFFD (\<open>EF BF BD\<close>).
\<close>

definition is_high_surrogate :: "16 word \<Rightarrow> bool" where
  "is_high_surrogate u = (0xD800 \<le> unat u \<and> unat u \<le> 0xDBFF)"

definition is_low_surrogate :: "16 word \<Rightarrow> bool" where
  "is_low_surrogate u = (0xDC00 \<le> unat u \<and> unat u \<le> 0xDFFF)"

definition is_surrogate :: "16 word \<Rightarrow> bool" where
  "is_surrogate u = (0xD800 \<le> unat u \<and> unat u \<le> 0xDFFF)"

definition encode_code_point :: "nat \<Rightarrow> buffer" where
  "encode_code_point c =
     (if c < 0x80 then [word_of_nat c]
      else if c < 0x800 then [word_of_nat (0xC0 + c div 64), word_of_nat (0x80 + c mod 64)]
      else if c < 0x10000 then
        [word_of_nat (0xE0 + c div 4096), word_of_nat (0x80 + c div 64 mod 64),
         word_of_nat (0x80 + c mod 64)]
      else
        [word_of_nat (0xF0 + c div 262144), word_of_nat (0x80 + c div 4096 mod 64),
         word_of_nat (0x80 + c div 64 mod 64), word_of_nat (0x80 + c mod 64)])"

definition pair_code_point :: "16 word \<Rightarrow> 16 word \<Rightarrow> nat" where
  "pair_code_point hi lo = 0x10000 + (unat hi - 0xD800) * 1024 + (unat lo - 0xDC00)"

fun utf8_encode :: "jsstring \<Rightarrow> buffer" where
  "utf8_encode [] = []"
| "utf8_encode [u] =
     (if is_surrogate u then [0xEF, 0xBF, 0xBD] else encode_code_point (unat u))"
| "utf8_encode (u # v # rest) =
     (if is_high_surrogate u \<and> is_low_surrogate v
      then encode_code_point (pair_code_point u v) @ utf8_encode rest
      else if is_surrogate u then [0xEF, 0xBF, 0xBD] @ utf8_encode (v # rest)
      else encode_code_point (unat u) @ utf8_encode (v # rest))"

text \<open>
  \<open>buf.toString('utf8')\<close>: the decoder of the Encoding standard, without the byte order mark
  handling. A byte that cannot start or continue a sequence yields U+FFFD; a byte that
  breaks a sequence off is looked at again as a first byte.
\<close>

record utf8_state =
  code_point :: nat
  bytes_seen :: nat
  bytes_needed :: nat
  lower_boundary :: nat
  upper_boundary :: nat

definition utf8_initial :: utf8_state where
  "utf8_initial = \<lparr>code_point = 0, bytes_seen = 0, bytes_needed = 0,
                    lower_boundary = 0x80, upper_boundary = 0xBF\<rparr>"

definition code_point_units :: "nat \<Rightarrow> jsstring" where
  "code_point_units c =
     (if c < 0x10000 then [word_of_nat c]
      else [word_of_nat (0xD800 + (c - 0x10000) div 1024),
            word_of_nat (0xDC00 + (c - 0x10000) mod 1024)])"

datatype first_byte = Emit jsstring | Start utf8_state

definition utf8_first :: "nat \<Rightarrow> first_byte" where
  "utf8_first b =
     (if b \<le> 0x7F then Emit [word_of_nat b]
      else if 0xC2 \<le> b \<and> b \<le> 0xDF then
        Start (utf8_initial\<lparr>bytes_needed := 1, code_point := b mod 32\<rparr>)
      else if 0xE0 \<le> b \<and> b \<le> 0xEF then
        Start (utf8_initial\<lparr>bytes_needed := 2, code_point := b mod 16,
                 lower_boundary := (if b = 0xE0 then 0xA0 else 0x80),
                 upper_boundary := (if b = 0xED then 0x9F else 0xBF)\<rparr>)
      else if 0xF0 \<le> b \<and> b \<le> 0xF4 then
        Start (utf8_initial\<lparr>bytes_needed := 3, code_point := b mod 8,
                 lower_boundary := (if b = 0xF0 then 0x90 else 0x80),
                 upper_boundary := (if b = 0xF4 then 0x8F else 0xBF)\<rparr>)
      else Emit [0xFFFD])"

fun utf8_decode_from :: "utf8_state \<Rightarrow> buffer \<Rightarrow> jsstring" where
  "utf8_decode_from st [] = (if bytes_needed st \<noteq> 0 then [0xFFFD] else [])"
| "utf8_decode_from st (b # bs) =
     (if bytes_needed st = 0 then
        (case utf8_first (unat b) of
           Emit us \<Rightarrow> us @ utf8_decode_from utf8_initial bs
         | Start st' \<Rightarrow> utf8_decode_from st' bs)
      else if unat b < lower_boundary st \<or> upper_boundary st < unat b then
        0xFFFD #
        (case utf8_first (unat b) of
           Emit us \<Rightarrow> us @ utf8_decode_from utf8_initial bs
         | Start st' \<Rightarrow> utf8_decode_from st' bs)
      else
        (let c = code_point st * 64 + unat b mod 64 in
         if bytes_seen st + 1 = bytes_needed st
         then code_point_units c @ utf8_decode_from utf8_initial bs
         else utf8_decode_from
                (st\<lparr>code_point := c, bytes_seen := bytes_seen st + 1,
                    lower_boundary := 0x80, upper_boundary := 0xBF\<rparr>) bs))"

definition utf8_decode :: "buffer \<Rightarrow> jsstring" where
  "utf8_decode bs = utf8_decode_from utf8_initial bs"

subsection \<open>Base64 and hexadecimal\<close>

text \<open>
  \<open>buf.toString('base64')\<close> writes the standard alphabet with \<open>=\<close> padding.
  \<open>Buffer.from(s, 'base64')\<close> reads of every code unit its low byte only (it looks the code
  unit up as an unsigned 8-bit value, so U+0141 reads as \<open>A\<close> and U+013D as \<open>=\<close>); it stops at
  the first \<open>=\<close>, passes over every byte outside the standard and the URL-safe alphabet, and
  writes a byte as soon as the second, third or fourth sextet of a group has come.
\<close>

definition base64_char :: "nat \<Rightarrow> 16 word" where
  "base64_char i =
     (if i < 26 then word_of_nat (65 + i)
      else if i < 52 then word_of_nat (71 + i)
      else if i < 62 then word_of_nat (i - 4)
      else if i = 62 then 43 else 47)"

definition base64_index :: "16 word \<Rightarrow> nat option" where
  "base64_index c =
     (let n = unat c mod 256 in
      if 65 \<le> n \<and> n \<le> 90 then Some (n - 65)
      else if 97 \<le> n \<and> n \<le> 122 then Some (n - 71)
      else if 48 \<le> n \<and> n \<le> 57 then Some (n + 4)
      else if n = 43 \<or> n = 45 then Some 62
      else if n = 47 \<or> n = 95 then Some 63
      else None)"

fun base64_encode :: "buffer \<Rightarrow> jsstring" where
  "base64_encode [] = []"
| "base64_encode [a] =
     [base64_char (unat a div 4), base64_char (unat a mod 4 * 16), 61, 61]"
| "base64_encode [a, b] =
     [base64_char (unat a div 4), base64_char (unat a mod 4 * 16 + unat b div 16),
      base64_char (unat b mod 16 * 4), 61]"
| "base64_encode (a # b # c # rest) =
     [base64_char (unat a div 4), base64_char (unat a mod 4 * 16 + unat b div 16),
      base64_char (unat b mod 16 * 4 + unat c div 64), base64_char (unat c mod 64)]
     @ base64_encode rest"

fun base64_sextets :: "jsstring \<Rightarrow> nat list" where
  "base64_sextets [] = []"
| "base64_sextets (c # cs) =
     (if unat c mod 256 = 61 then []
      else (case base64_index c of
              None \<Rightarrow> base64_sextets cs
            | Some i \<Rightarrow> i # base64_sextets cs))"

fun sextets_bytes :: "nat list \<Rightarrow> buffer" where
  "sextets_bytes (p # q # r # s # rest) =
     [word_of_nat (p * 4 + q div 16), word_of_nat (q mod 16 * 16 + r div 4),
      word_of_nat (r mod 4 * 64 + s)] @ sextets_bytes rest"
| "sextets_bytes [p, q, r] =
     [word_of_nat (p * 4 + q div 16), word_of_nat (q mod 16 * 16 + r div 4)]"
| "sextets_bytes [p, q] = [word_of_nat (p * 4 + q div 16)]"
| "sextets_bytes _ = []"

definition base64_decode :: "jsstring \<Rightarrow> buffer" where
  "base64_decode s = sextets_bytes (base64_sextets s)"

definition hex_digit :: "nat \<Rightarrow> 16 word" where
  "hex_digit d = (if d < 10 then word_of_nat (48 + d) else word_of_nat (87 + d))"

definition hex :: "buffer \<Rightarrow> jsstring" where
  "hex bs = concat (map (\<lambda>b. [hex_digit (unat b div 16), hex_digit (unat b mod 16)]) bs)"

text \<open>\<open>toUpperCase\<close>, on the Latin letters a hexadecimal digest is written in.\<close>

definition toUpperCase :: "jsstring \<Rightarrow> jsstring" where
  "toUpperCase s = map (\<lambda>c. if 97 \<le> unat c \<and> unat c \<le> 122 then c - 32 else c) s"

subsection \<open>SHA-256\<close>

text \<open>
  \<open>createHash('sha256').update(data).digest()\<close>, as FIPS 180-4 defines it. The round
  constants are the first 32 bits of the fractional parts of the cube roots of the first 64
  primes, the initial hash value those of the square roots of the first 8 primes.
\<close>

definition sha256_k :: "32 word list" where
  "sha256_k =
    [1116352408, 1899447441, 3049323471, 3921009573, 961987163, 1508970993,
     2453635748, 2870763221, 3624381080, 310598401, 607225278, 1426881987,
     1925078388, 2162078206, 2614888103, 3248222580, 3835390401, 4022224774,
     264347078, 604807628, 770255983, 1249150122, 1555081692, 1996064986,
     2554220882, 2821834349, 2952996808, 3210313671, 3336571891, 3584528711,
     113926993, 338241895, 666307205, 773529912, 1294757372, 1396182291,
     1695183700, 1986661051, 2177026350, 2456956037, 2730485921, 2820302411,
     3259730800, 3345764771, 3516065817, 3600352804, 4094571909, 275423344,
     430227734, 506948616, 659060556, 883997877, 958139571, 1322822218,
     1537002063, 1747873779, 1955562222, 2024104815, 2227730452, 2361852424,
     2428436474, 2756734187, 3204031479, 3329325298]"

definition sha256_h0 :: "32 word list" where
  "sha256_h0 =
    [1779033703, 3144134277, 1013904242, 2773480762, 1359893119, 2600822924,
     528734635, 1541459225]"

definition rotr :: "nat \<Rightarrow> 32 word \<Rightarrow> 32 word" where
  "rotr n w = word_rotr n w"

definition sha256_pad :: "buffer \<Rightarrow> buffer" where
  "sha256_pad bs =
     (let l = length bs;
          zeros = (119 - l mod 64) mod 64;
          bits = (word_of_nat (l * 8) :: 64 word)
      in bs @ [0x80] @ replicate zeros 0
           @ map (\<lambda>i. ucast (drop_bit (8 * (7 - i)) bits)) [0..<8])"

definition be32 :: "buffer \<Rightarrow> 32 word" where
  "be32 bs = foldl (\<lambda>acc b. push_bit 8 acc + ucast b) 0 (take 4 bs)"

fun words_of :: "nat \<Rightarrow> buffer \<Rightarrow> 32 word list" where
  "words_of 0 bs = []"
| "words_of (Suc n) bs = be32 bs # words_of n (drop 4 bs)"

fun sha256_schedule :: "nat \<Rightarrow> 32 word list \<Rightarrow> 32 word list" where
  "sha256_schedule 0 w = w"
| "sha256_schedule (Suc n) w =
     (let t = length w;
          w2 = w ! (t - 2); w7 = w ! (t - 7); w15 = w ! (t - 15); w16 = w ! (t - 16);
          s0 = rotr 7 w15 XOR rotr 18 w15 XOR drop_bit 3 w15;
          s1 = rotr 17 w2 XOR rotr 19 w2 XOR drop_bit 10 w2
      in sha256_schedule n (w @ [s1 + w7 + s0 + w16]))"

definition sha256_round :: "32 word list \<Rightarrow> 32 word \<times> 32 word \<Rightarrow> 32 word list" where
  "sha256_round v kw =
     (let a = v ! 0; b = v ! 1; c = v ! 2; d = v ! 3; e = v ! 4; f = v ! 5; g = v ! 6; h = v ! 7;
          S1 = rotr 6 e XOR rotr 11 e XOR rotr 25 e;
          ch = (e AND f) XOR (NOT e AND g);
          t1 = h + S1 + ch + fst kw + snd kw;
          S0 = rotr 2 a XOR rotr 13 a XOR rotr 22 a;
          maj = (a AND b) XOR (a AND c) XOR (b AND c);
          t2 = S0 + maj
      in [t1 + t2, a, b, c, d + t1, e, f, g])"

definition sha256_block :: "32 word list \<Rightarrow> buffer \<Rightarrow> 32 word list" where
  "sha256_block hs block =
     (let w = sha256_schedule 48 (words_of 16 block);
          v = foldl sha256_round hs (zip sha256_k w)
      in map2 (+) hs v)"

fun sha256_blocks :: "nat \<Rightarrow> 32 word list \<Rightarrow> buffer \<Rightarrow> 32 word list" where
  "sha256_blocks 0 hs bs = hs"
| "sha256_blocks (Suc n) hs bs = sha256_blocks n (sha256_block hs (take 64 bs)) (drop 64 bs)"

definition sha256 :: "buffer \<Rightarrow> buffer" where
  "sha256 bs =
     (let padded = sha256_pad bs;
          hs = sha256_blocks (length padded div 64) sha256_h0 padded
      in concat (map (\<lambda>w. map (\<lambda>i. ucast (drop_bit (8 * (3 - i)) w)) [0..<4]) hs))"

section \<open>KeyManager\<close>

datatype key_type = Rsa | Ed25519 | Ecdsa

record SSHKey =
  key_id :: jsstring
  key_name :: jsstring
  key_type :: key_type
  publicKey :: jsstring
  privateKey :: "jsstring option"
  fingerprint :: jsstring
  createdAt :: date
  encrypted :: "bool option"

record SSHKeyData =
  data_name :: jsstring
  data_publicKey :: jsstring
  data_privateKey :: "jsstring option"

record KeyGenerationOptions =
  opt_type :: jsstring
  opt_size :: "nat option"
  opt_name :: jsstring

record SSHKeyPair =
  pair_publicKey :: jsstring
  pair_privateKey :: jsstring
  pair_fingerprint :: jsstring

datatype key_event = KeyAdded SSHKey | KeyRemoved SSHKey | KeyManagerError error

text \<open>
  The manager's map of keys, its encryption key, the key files of its directory (one per
  identifier, holding the record as saved) and the encryption key file, and what it emitted.
\<close>

record key_manager =
  keys :: "(jsstring \<times> SSHKey) list"
  encryptionKey :: "buffer option"
  key_files :: "(jsstring \<times> SSHKey) list"
  encryption_key_file :: "buffer option"
  key_emitted :: "key_event list"

definition new_key_manager :: key_manager where
  "new_key_manager = \<lparr>keys = [], encryptionKey = None, key_files = [],
                        encryption_key_file = None, key_emitted = []\<rparr>"

definition emit_key :: "key_event \<Rightarrow> key_manager \<Rightarrow> key_manager" where
  "emit_key e m = m\<lparr>key_emitted := key_emitted m @ [e]\<rparr>"

text \<open>\<open>initializeEncryptionKey\<close>: the key file if it can be read, else 32 fresh random bytes.\<close>

definition initializeEncryptionKey :: "key_manager \<Rightarrow> buffer \<Rightarrow> key_manager" where
  "initializeEncryptionKey m random32 =
     (case encryption_key_file m of
        Some keyData \<Rightarrow> m\<lparr>encryptionKey := Some keyData\<rparr>
      | None \<Rightarrow> m\<lparr>encryptionKey := Some random32, encryption_key_file := Some random32\<rparr>)"

definition generateFingerprint :: "jsstring \<Rightarrow> error + jsstring" where
  "generateFingerprint publicKeyText =
     (let keyParts = split_space (trim publicKeyText) in
      if length keyParts < 2 then Inl (KeyFormatError InvalidPublicKeyFormat)
      else
        (let keyData = base64_decode (keyParts ! 1);
             hash = hex (sha256 keyData)
         in Inr (str ''SHA256:'' @ toUpperCase hash)))"

definition determineKeyType :: "jsstring \<Rightarrow> error + key_type" where
  "determineKeyType publicKeyText =
     (if includes_js publicKeyText (str ''BEGIN RSA PUBLIC KEY'') \<or> includes_js publicKeyText (str ''ssh-rsa'')
      then Inr Rsa
      else if includes_js publicKeyText (str ''BEGIN ED25519 PUBLIC KEY'')
              \<or> includes_js publicKeyText (str ''ssh-ed25519'')
      then Inr Ed25519
      else if includes_js publicKeyText (str ''BEGIN EC PUBLIC KEY'')
              \<or> includes_js publicKeyText (str ''ecdsa-sha2-'')
      then Inr Ecdsa
      else Inl (KeyFormatError UnableToDetermineKeyType))"

text \<open>
  The loop of \<open>encryptPrivateKey\<close> and of \<open>decryptPrivateKey\<close>, from index \<open>i\<close> on. With an
  empty key \<open>i % 0\<close> is \<open>NaN\<close>, the key byte \<open>undefined\<close>, and the exclusive or leaves the byte.
\<close>

definition key_byte :: "buffer \<Rightarrow> nat \<Rightarrow> 8 word" where
  "key_byte k i = (if k = [] then 0 else k ! (i mod length k))"

fun xor_loop :: "buffer \<Rightarrow> nat \<Rightarrow> buffer \<Rightarrow> buffer" where
  "xor_loop k i [] = []"
| "xor_loop k i (b # bs) = (b XOR key_byte k i) # xor_loop k (i + 1) bs"

definition encryptPrivateKey :: "key_manager \<Rightarrow> jsstring \<Rightarrow> error + jsstring" where
  "encryptPrivateKey m plaintext =
     (case encryptionKey m of
        None \<Rightarrow> Inl EncryptionKeyUnavailable
      | Some k \<Rightarrow> Inr (base64_encode (xor_loop k 0 (utf8_encode plaintext))))"

definition decryptPrivateKey :: "key_manager \<Rightarrow> jsstring \<Rightarrow> error + jsstring" where
  "decryptPrivateKey m encryptedPrivateKey =
     (case encryptionKey m of
        None \<Rightarrow> Inl EncryptionKeyUnavailable
      | Some k \<Rightarrow> Inr (utf8_decode (xor_loop k 0 (base64_decode encryptedPrivateKey))))"

text \<open>
  \<open>addKey\<close>: the identifier comes from \<open>uuidv4\<close>, the time from \<open>new Date()\<close>, and
  \<open>write_ok\<close> tells whether \<open>fs.writeFile\<close> of \<open>saveKey\<close> succeeds. Every failure is
  emitted as an error and thrown again.
\<close>

definition addKey ::
  "key_manager \<Rightarrow> SSHKeyData \<Rightarrow> jsstring \<Rightarrow> date \<Rightarrow> bool \<Rightarrow> (error + SSHKey) \<times> key_manager" where
  "addKey m keyData newId now write_ok =
     (case generateFingerprint (data_publicKey keyData) of
        Inl e \<Rightarrow> (Inl e, emit_key (KeyManagerError e) m)
      | Inr fp \<Rightarrow>
          (case determineKeyType (data_publicKey keyData) of
             Inl e \<Rightarrow> (Inl e, emit_key (KeyManagerError e) m)
           | Inr keyType \<Rightarrow>
               (let key = \<lparr>key_id = newId, key_name = data_name keyData, key_type = keyType,
                           publicKey = data_publicKey keyData, privateKey = None,
                           fingerprint = fp, createdAt = now,
                           encrypted = Some (truthy (data_privateKey keyData))\<rparr>;
                    enc = (case data_privateKey keyData of
                             None \<Rightarrow> Inr key
                           | Some pk \<Rightarrow>
                               if pk = [] then Inr key
                               else (case encryptPrivateKey m pk of
                                       Inl e \<Rightarrow> Inl e
                                     | Inr c \<Rightarrow> Inr (key\<lparr>privateKey := Some c\<rparr>)))
                in case enc of
                     Inl e \<Rightarrow> (Inl e, emit_key (KeyManagerError e) m)
                   | Inr key' \<Rightarrow>
                       (let m1 = m\<lparr>keys := AList.update newId key' (keys m)\<rparr> in
                        if write_ok
                        then (Inr key',
                              emit_key (KeyAdded key')
                                (m1\<lparr>key_files := AList.update newId key' (key_files m1)\<rparr>))
                        else (Inl TransportError, emit_key (KeyManagerError TransportError) m1)))))"

definition removeKey :: "key_manager \<Rightarrow> jsstring \<Rightarrow> bool \<Rightarrow> (error + bool) \<times> key_manager" where
  "removeKey m keyId unlink_ok =
     (case map_of (keys m) keyId of
        None \<Rightarrow> (Inl KeyNotFound, emit_key (KeyManagerError KeyNotFound) m)
      | Some key \<Rightarrow>
          if unlink_ok
          then (Inr True,
                emit_key (KeyRemoved key)
                  (m\<lparr>key_files := AList.delete keyId (key_files m),
                      keys := AList.delete keyId (keys m)\<rparr>))
          else (Inl TransportError, emit_key (KeyManagerError TransportError) m))"

text \<open>
  What \<open>generateKeyPair\<close> asks of \<open>generateKeyPairSync\<close>, and the DER encodings (SPKI and
  PKCS8) of the pair that comes back. \<open>export({format: 'pem'})\<close> writes the Base64 of the
  encoding in lines of 64 characters between a \<open>BEGIN\<close> and an \<open>END\<close> line.
\<close>

datatype keygen_request = GenerateRsa nat | GenerateEc jsstring | GenerateEd25519

record key_material =
  public_der :: buffer
  private_der :: buffer

function pem_lines :: "jsstring \<Rightarrow> jsstring" where
  "pem_lines s = (if s = [] then [] else take 64 s @ [10] @ pem_lines (drop 64 s))"
  by pat_completeness auto
termination
  by (relation "measure length") auto

declare pem_lines.simps [simp del]

definition export_pem :: "string \<Rightarrow> buffer \<Rightarrow> jsstring" where
  "export_pem label der =
     str (''-----BEGIN '' @ label @ ''-----'') @ [10] @ pem_lines (base64_encode der)
       @ str (''-----END '' @ label @ ''-----'') @ [10]"

definition generateKeyPair ::
  "key_manager \<Rightarrow> KeyGenerationOptions \<Rightarrow> (keygen_request \<Rightarrow> key_material) \<Rightarrow> jsstring \<Rightarrow> date \<Rightarrow> bool
     \<Rightarrow> (error + SSHKeyPair) \<times> key_manager" where
  "generateKeyPair m options generateKeyPairSync newId now write_ok =
     (let request =
            (if opt_type options = str ''rsa''
             then Some (GenerateRsa (or_default_num (opt_size options) 4096))
             else if opt_type options = str ''ecdsa''
             then Some (GenerateEc (if opt_size options = Some 256 then str ''prime256v1''
                                    else str ''secp384r1''))
             else if opt_type options = str ''ed25519'' then Some GenerateEd25519
             else None)
      in case request of
           None \<Rightarrow> (Inl UnsupportedKeyType, emit_key (KeyManagerError UnsupportedKeyType) m)
         | Some r \<Rightarrow>
             (let pair = generateKeyPairSync r;
                  publicKeyString = export_pem ''PUBLIC KEY'' (public_der pair);
                  privateKeyString = export_pem ''PRIVATE KEY'' (private_der pair)
              in case generateFingerprint publicKeyString of
                   Inl e \<Rightarrow> (Inl e, emit_key (KeyManagerError e) m)
                 | Inr fp \<Rightarrow>
                     (case addKey m \<lparr>data_name = opt_name options, data_publicKey = publicKeyString,
                                     data_privateKey = Some privateKeyString\<rparr> newId now write_ok of
                        (Inl e, m1) \<Rightarrow> (Inl e, emit_key (KeyManagerError e) m1)
                      | (Inr key, m1) \<Rightarrow>
                          (Inr \<lparr>pair_publicKey = publicKeyString, pair_privateKey = privateKeyString,
                                pair_fingerprint = fp\<rparr>, m1))))"

definition listKeys :: "key_manager \<Rightarrow> SSHKey list" where
  "listKeys m = map (\<lambda>key. key\<lparr>privateKey := None\<rparr>) (map snd (keys m))"

definition getPrivateKey :: "key_manager \<Rightarrow> jsstring \<Rightarrow> (error + jsstring option) \<times> key_manager" where
  "getPrivateKey m keyId =
     (case map_of (keys m) keyId of
        None \<Rightarrow> (Inr None, m)
      | Some key \<Rightarrow>
          (case privateKey key of
             None \<Rightarrow> (Inr None, m)
           | Some c \<Rightarrow>
               if c = [] then (Inr None, m)
               else (case decryptPrivateKey m c of
                       Inl e \<Rightarrow> (Inl e, emit_key (KeyManagerError e) m)
                     | Inr p \<Rightarrow> (Inr (Some p), m))))"

definition cleanup :: "key_manager \<Rightarrow> key_manager" where
  "cleanup m = m\<lparr>keys := []\<rparr>"

subsection \<open>Notions used in the statements and proofs\<close>

text \<open>Auxiliary notions for the proofs: the adjacent pairs of a text, trimming at the end only.\<close>

definition pairs :: "'a list \<Rightarrow> ('a \<times> 'a) list" where
  "pairs s = zip s (tl s)"

definition trim_end :: "jsstring \<Rightarrow> jsstring" where
  "trim_end s = rev (dropWhile is_js_space (rev s))"

text \<open>
  The whitespace-separated fields of a text, as the specification speaks of them: the non-empty
  pieces between runs of white space.
\<close>

definition whitespace_fields :: "jsstring \<Rightarrow> jsstring list" where
  "whitespace_fields s = filter (\<lambda>f. f \<noteq> []) (split_on is_js_space s)"

text \<open>The characters of a Base64 text, and the two frame lines of an exported public key.\<close>

definition base64_text_char :: "16 word \<Rightarrow> bool" where
  "base64_text_char c = (c = 61 \<or> (\<exists>i < 64. c = base64_char i))"

definition pem_header :: jsstring where
  "pem_header = str ''-----BEGIN PUBLIC KEY-----'' @ [10]"

definition pem_footer :: jsstring where
  "pem_footer = str ''-----END PUBLIC KEY-----'' @ [10]"

text \<open>Unicode scalar values, and the strings that are well-formed UTF-16.\<close>

definition scalar_value :: "nat \<Rightarrow> bool" where
  "scalar_value c = (c < 0x110000 \<and> \<not> (0xD800 \<le> c \<and> c \<le> 0xDFFF))"

fun well_formed_utf16 :: "jsstring \<Rightarrow> bool" where
  "well_formed_utf16 [] = True"
| "well_formed_utf16 [u] = (\<not> is_surrogate u)"
| "well_formed_utf16 (u # v # rest) =
     (if is_high_surrogate u \<and> is_low_surrogate v then well_formed_utf16 rest
      else \<not> is_surrogate u \<and> well_formed_utf16 (v # rest))"

text \<open>A key manager with a 32-byte key, and a key to add to it.\<close>

definition example_key_manager :: key_manager where
  "example_key_manager = initializeEncryptionKey new_key_manager (replicate 32 0x5A)"

definition example_key_data :: SSHKeyData where
  "example_key_data =
     \<lparr>data_name = str ''laptop'', data_publicKey = str ''ssh-ed25519 QUJD me@host'',
      data_privateKey = Some [0x6B, 0xE9, 0x20AC, 0xD83D, 0xDE00]\<rparr>"

definition example_key :: SSHKey where
  "example_key =
     \<lparr>key_id = str ''id1'', key_name = str ''laptop'', key_type = Ed25519,
      publicKey = str ''ssh-ed25519 QUJD me@host'',
      privateKey = Some (str ''MZnzuNj2qsXC2g==''),
      fingerprint = str ''SHA256:B5D4045C3F466FA91FE2CC6ABE79232A1A57CDF104F7A26E716E0A1E2789DF78'',
      createdAt = 0, encrypted = Some True\<rparr>"

definition example_stored :: key_manager where
  "example_stored = snd (addKey example_key_manager example_key_data (str ''id1'') 0 True)"

section \<open>Properties of SSHManager\<close>

lemma connections_emit [simp]: "connections (emit n m) = connections m"
  by (simp add: emit_def)
lemma connections_call [simp]: "connections (call c m) = connections m"
  by (simp add: call_def)
lemma connections_set [simp]: "connections (set_connection k c m) = AList.update k c (connections m)"
  by (simp add: set_connection_def)

lemma attempts_of_emit [simp]: "attempts_of (emit n m) k = attempts_of m k"
  by (simp add: attempts_of_def emit_def)

lemma attempts_after_call:
  "attempts_of (snd (attemptReconnect m k)) k =
     (if attempts_of m k \<ge> 3 then attempts_of m k else attempts_of m k + 1)"
  by (simp add: attemptReconnect_def Let_def maxReconnectAttempts_def call_def)
     (simp add: attempts_of_def update_conv')

lemma attempts_after_calls:
  "attempts_of m k = 0 \<Longrightarrow> attempts_of (reconnect_calls n m k) k = min n 3"
proof (induction n)
  case 0
  then show ?case by (simp add: reconnect_calls_def)
next
  case (Suc n)
  then have "attempts_of (reconnect_calls n m k) k = min n 3" by simp
  then show ?case
    by (simp add: reconnect_calls_def attempts_after_call min_def)
qed

lemma set_update_subset: "set (AList.update k v al) \<subseteq> insert (k, v) (set al)"
  by (induction al) auto

lemma map_of_keyed: "keyed m \<Longrightarrow> map_of (connections m) k = Some c \<Longrightarrow> conn_id c = k"
  by (auto simp: keyed_def dest: map_of_SomeD)

lemma keyed_set: "keyed m \<Longrightarrow> conn_id c = k \<Longrightarrow> keyed (set_connection k c m)"
  using set_update_subset [of k c "connections m"]
  by (auto simp: keyed_def)

lemma keyed_emit [simp]: "keyed (emit n m) = keyed m"
  by (simp add: keyed_def)
lemma keyed_call [simp]: "keyed (call c m) = keyed m"
  by (simp add: keyed_def)
lemma keyed_once [simp]: "keyed (m\<lparr>onceClose := x\<rparr>) = keyed m"
  by (simp add: keyed_def)
lemma keyed_reconn [simp]: "keyed (m\<lparr>reconnectAttempts := x\<rparr>) = keyed m"
  by (simp add: keyed_def)

lemma ids_emit [simp]: "ids (emit n m) = ids m"
  by (simp add: ids_def)
lemma ids_call [simp]: "ids (call c m) = ids m"
  by (simp add: ids_def)
lemma ids_once [simp]: "ids (m\<lparr>onceClose := x\<rparr>) = ids m"
  by (simp add: ids_def)
lemma ids_reconn [simp]: "ids (m\<lparr>reconnectAttempts := x\<rparr>) = ids m"
  by (simp add: ids_def)
lemma ids_set [simp]: "ids (set_connection k c m) = insert k (ids m)"
  by (simp add: ids_def dom_update)

lemma map_of_ids: "map_of (connections m) k = Some c \<Longrightarrow> k \<in> ids m"
  by (force simp: ids_def dest: map_of_SomeD)

lemma close_listener_ids [simp]: "ids (close_listener k m) = ids m"
  by (auto simp: close_listener_def split: option.splits dest: map_of_ids)

lemma close_listener_keyed: "keyed m \<Longrightarrow> keyed (close_listener k m)"
  by (auto simp: close_listener_def split: option.splits intro!: keyed_set dest: map_of_keyed)

lemma fold_close_ids [simp]: "ids (fold (\<lambda>_. close_listener k) xs m) = ids m"
  by (induction xs arbitrary: m) auto

lemma fold_close_keyed: "keyed m \<Longrightarrow> keyed (fold (\<lambda>_. close_listener k) xs m)"
  by (induction xs arbitrary: m) (auto intro: close_listener_keyed)

lemma disconnect_ids [simp]: "ids (snd (disconnect m k)) = ids m"
  by (simp add: disconnect_def split: option.splits)

lemma disconnect_keyed: "keyed m \<Longrightarrow> keyed (snd (disconnect m k))"
  by (simp add: disconnect_def split: option.splits)

lemma fold_disconnect_ids [simp]: "ids (fold (\<lambda>k acc. snd (disconnect acc k)) ks m) = ids m"
  by (induction ks arbitrary: m) auto

lemma fold_disconnect_keyed: "keyed m \<Longrightarrow> keyed (fold (\<lambda>k acc. snd (disconnect acc k)) ks m)"
  by (induction ks arbitrary: m) (auto intro: disconnect_keyed)

lemma getSFTP_ids [simp]: "ids (snd (getSFTP m k r)) = ids m"
  by (auto simp: getSFTP_def Let_def
      split: option.splits sftp_response.splits dest: map_of_ids)

lemma getSFTP_keyed: "keyed m \<Longrightarrow> keyed (snd (getSFTP m k r))"
  by (auto simp: getSFTP_def Let_def split: option.splits sftp_response.splits
      intro!: keyed_set dest: map_of_keyed)

lemma file_operation_connections:
  "connections (snd (listFiles m k p s r)) = connections (snd (getSFTP m k s))"
  "connections (snd (uploadFile m k l p s ok)) = connections (snd (getSFTP m k s))"
  "connections (snd (downloadFile m k p l s ok)) = connections (snd (getSFTP m k s))"
  by (cases "getSFTP m k s";
      auto simp: listFiles_def uploadFile_def downloadFile_def Let_def
        split: sum.splits readdir_response.splits)+

lemma file_operation_ids [simp]:
  "ids (snd (listFiles m k p s r)) = ids m"
  "ids (snd (uploadFile m k l p s ok)) = ids m"
  "ids (snd (downloadFile m k p l s ok)) = ids m"
  using getSFTP_ids [of m k s] by (simp_all add: ids_def file_operation_connections)

lemma file_operation_keyed:
  assumes "keyed m"
  shows "keyed (snd (listFiles m k p s r))" "keyed (snd (uploadFile m k l p s ok))"
    "keyed (snd (downloadFile m k p l s ok))"
  using getSFTP_keyed [OF assms, of k s] by (simp_all add: keyed_def file_operation_connections)

lemma step_ids: "ids m \<subseteq> ids (step m a)"
proof (cases a)
  case (OpClose k)
  then show ?thesis by (simp add: on_close_def Let_def)
qed (auto simp: connect_def Let_def on_ready_def on_error_def  on_disconnect_timeout_def
      disconnectAll_def executeCommand_def attemptReconnect_def attemptReconnect_resume_def
      split: option.splits exec_response.splits)

lemma step_keyed: "keyed m \<Longrightarrow> keyed (step m a)"
proof (cases a)
  case (OpClose k)
  assume "keyed m"
  then show ?thesis using OpClose
    by (simp add: on_close_def Let_def fold_close_keyed close_listener_keyed)
next
  case (OpConnect cfg k h t)
  assume "keyed m"
  then show ?thesis using OpConnect
    by (auto simp: connect_def Let_def intro!: keyed_set)
next
  case (OpExecute k c r)
  assume "keyed m"
  then show ?thesis using OpExecute
    by (auto simp: executeCommand_def Let_def split: option.splits exec_response.splits
        intro!: keyed_set dest: map_of_keyed)
next
  case (OpGetSFTP k r)
  assume "keyed m"
  then show ?thesis using OpGetSFTP by (simp add: getSFTP_keyed)
qed (auto simp: on_ready_def on_error_def on_disconnect_timeout_def disconnect_keyed
      disconnectAll_def fold_disconnect_keyed attemptReconnect_def attemptReconnect_resume_def Let_def
      file_operation_keyed
      split: option.splits intro!: keyed_set dest: map_of_keyed)

lemma run_ids: "ids m \<subseteq> ids (run m acts)"
  unfolding run_def
proof (induction acts arbitrary: m)
  case Nil
  show ?case by simp
next
  case (Cons a acts)
  have "ids m \<subseteq> ids (step m a)" by (rule step_ids)
  also have "\<dots> \<subseteq> ids (foldl step (step m a) acts)" by (rule Cons.IH)
  finally show ?case by simp
qed

lemma run_keyed: "keyed m \<Longrightarrow> keyed (run m acts)"
  unfolding run_def
  by (induction acts arbitrary: m) (auto intro: step_keyed)

lemma keyed_new: "keyed new_manager"
  by (simp add: keyed_def new_manager_def)

lemma connect_ids: "k \<in> ids (step m (OpConnect cfg k h t))"
  by (simp add: connect_def Let_def)

lemma listed: "keyed m \<Longrightarrow> k \<in> ids m \<Longrightarrow>
   getConnection m k \<noteq> None \<and> k \<in> conn_id ` set (getActiveConnections m)"
  by (force simp: keyed_def ids_def getConnection_def getActiveConnections_def map_of_eq_None_iff)

lemma status_of_emit [simp]: "status_of (emit n m) k = status_of m k"
  by (simp add: status_of_def)
lemma status_of_call [simp]: "status_of (call c m) k = status_of m k"
  by (simp add: status_of_def)
lemma status_of_once [simp]: "status_of (m\<lparr>onceClose := x\<rparr>) k = status_of m k"
  by (simp add: status_of_def)
lemma status_of_reconn [simp]: "status_of (m\<lparr>reconnectAttempts := x\<rparr>) k = status_of m k"
  by (simp add: status_of_def)
lemma status_of_set [simp]:
  "status_of (set_connection k' c m) k = (if k = k' then Some (status c) else status_of m k)"
  by (simp add: status_of_def update_conv')

lemma close_listener_status:
  "status_of (close_listener k' m) k =
     (if k' = k \<and> status_of m k \<noteq> None then Some Disconnected else status_of m k)"
  by (auto simp: close_listener_def status_of_def update_conv' split: option.splits)

lemma fold_close_status:
  "status_of m k' = Some Disconnected \<Longrightarrow>
     status_of (fold (\<lambda>_. close_listener k') xs m) k = status_of m k"
proof (induction xs arbitrary: m)
  case Nil
  show ?case by simp
next
  case (Cons x xs)
  have eq: "status_of (close_listener k' m) j = status_of m j" for j
    using Cons.prems by (auto simp: close_listener_status)
  then have "status_of (close_listener k' m) k' = Some Disconnected"
    using Cons.prems by simp
  from Cons.IH [OF this] show ?case by (simp add: eq)
qed

lemma on_close_status:
  "status_of (on_close m k') k =
     (if k' = k \<and> status_of m k \<noteq> None then Some Disconnected else status_of m k)"
proof (cases "status_of m k'")
  case None
  then have "map_of (connections m) k' = None" by (simp add: status_of_def)
  then have cl: "close_listener k' s = s" if "connections s = connections m" for s
    using that by (simp add: close_listener_def)
  have fl: "fold (\<lambda>_. close_listener k') xs m = m" for xs
    by (induction xs) (simp_all add: cl)
  show ?thesis using None by (auto simp: on_close_def Let_def cl fl)
next
  case (Some s)
  then have "status_of (close_listener k' m) k' = Some Disconnected"
    by (simp add: close_listener_status)
  then have fl: "status_of (fold (\<lambda>_. close_listener k') xs (close_listener k' m)) k =
      status_of (close_listener k' m) k" for xs
    by (rule fold_close_status)
  show ?thesis
    by (simp add: on_close_def Let_def fl) (simp add: close_listener_status)
qed

lemma disconnect_status [simp]: "status_of (snd (disconnect m k')) k = status_of m k"
  by (simp add: disconnect_def split: option.splits)

lemma fold_disconnect_status [simp]:
  "status_of (fold (\<lambda>k acc. snd (disconnect acc k)) ks m) k = status_of m k"
  by (induction ks arbitrary: m) auto

lemma getSFTP_status [simp]: "status_of (snd (getSFTP m k' r)) k = status_of m k"
  by (auto simp: getSFTP_def Let_def status_of_def update_conv'
      split: option.splits sftp_response.splits)

lemma file_operation_status [simp]:
  "status_of (snd (listFiles m k' p s r)) k = status_of m k"
  "status_of (snd (uploadFile m k' l p s ok)) k = status_of m k"
  "status_of (snd (downloadFile m k' p l s ok)) k = status_of m k"
  using getSFTP_status [of m k' s k] by (simp_all add: status_of_def file_operation_connections)

lemma executeCommand_status [simp]: "status_of (snd (executeCommand m k' c r)) k = status_of m k"
  by (auto simp: executeCommand_def Let_def status_of_def update_conv'
      split: option.splits exec_response.splits)

lemma on_ready_status:
  "status_of (on_ready m k' now) k =
     (if k' = k \<and> status_of m k \<noteq> None then Some Connected else status_of m k)"
  by (auto simp: on_ready_def status_of_def update_conv' split: option.splits)

lemma on_error_status:
  "status_of (on_error m k') k =
     (if k' = k \<and> status_of m k \<noteq> None then Some StatusError else status_of m k)"
  by (auto simp: on_error_def status_of_def update_conv' split: option.splits)

lemma connect_status:
  "status_of (snd (connect m config k' h now)) k = (if k' = k then Some Connecting else status_of m k)"
  by (simp add: connect_def Let_def)

lemma foldl_digits_append:
  "foldl (\<lambda>acc d. acc * 8 + d) a ds = a * 8 ^ length ds + digits_value ds"
  unfolding digits_value_def
proof (induction ds arbitrary: a)
  case Nil
  show ?case by simp
next
  case (Cons d ds)
  let ?f = "\<lambda>acc d. acc * 8 + (d::nat)"
  have "foldl ?f (a * 8 + d) ds = (a * 8 + d) * 8 ^ length ds + foldl ?f 0 ds"
    by (rule Cons.IH)
  moreover have "foldl ?f d ds = d * 8 ^ length ds + foldl ?f 0 ds"
    by (rule Cons.IH)
  ultimately show ?case by (simp add: algebra_simps)
qed

lemma digits_value_append:
  "digits_value (xs @ ys) = digits_value xs * 8 ^ length ys + digits_value ys"
  unfolding digits_value_def foldl_append
  by (rule foldl_digits_append [unfolded digits_value_def])

lemma digits_value_bound:
  "\<forall>d \<in> set ds. d < 8 \<Longrightarrow> digits_value ds < 8 ^ length ds"
proof (induction ds rule: rev_induct)
  case Nil
  show ?case by (simp add: digits_value_def)
next
  case (snoc d ds)
  then have "digits_value ds < 8 ^ length ds" and "d < 8" by simp_all
  then have "digits_value ds * 8 + d < 8 ^ length ds * 8" by arith
  then show ?case by (simp add: digits_value_append digits_value_def)
qed

lemma octal_digits_lt: "\<forall>d \<in> set (octal_digits n). d < 8"
  by (induction n rule: octal_digits.induct) (subst octal_digits.simps, auto)

lemma octal_digits_value: "digits_value (octal_digits n) = n"
proof (induction n rule: octal_digits.induct)
  case (1 n)
  show ?case
  proof (cases "n < 8")
    case True
    then show ?thesis by (subst octal_digits.simps) (simp add: digits_value_def)
  next
    case False
    with 1 have "digits_value (octal_digits (n div 8)) = n div 8" by simp
    with False show ?thesis
      by (subst octal_digits.simps) (simp add: digits_value_append digits_value_def)
  qed
qed

lemma from_octal_digits:
  "\<forall>d \<in> set ds. d < 8 \<Longrightarrow> from_octal (map digit_char ds) = digits_value ds"
proof -
  assume lt: "\<forall>d \<in> set ds. d < 8"
  have "foldl (\<lambda>acc d. acc * 8 + (unat d - 48)) a (map digit_char ds) =
        foldl (\<lambda>acc d. acc * 8 + d) a ds" for a
    using lt
  proof (induction ds arbitrary: a)
    case Nil
    show ?case by simp
  next
    case (Cons d ds)
    then have "d < 8" by simp
    then have "unat (digit_char d) = 48 + d"
      unfolding digit_char_def by (intro of_nat_inverse [OF refl]) simp
    with Cons show ?case by simp
  qed
  then show ?thesis by (simp add: from_octal_def digits_value_def)
qed

lemma from_octal_toString8: "from_octal (toString8 n) = n"
  by (simp add: toString8_def from_octal_digits octal_digits_lt octal_digits_value)

lemma digits_value_last3:
  assumes "\<forall>d \<in> set ds. d < 8"
  shows "digits_value (drop (length ds - 3) ds) = digits_value ds mod 512"
proof -
  let ?hd = "take (length ds - 3) ds" and ?tl = "drop (length ds - 3) ds"
  have lt: "\<forall>d \<in> set ?tl. d < 8" using assms by (auto dest: in_set_dropD)
  have len: "length ?tl \<le> 3" by simp
  have "digits_value ?tl < 8 ^ length ?tl" using lt by (rule digits_value_bound)
  also have "\<dots> \<le> (8::nat) ^ 3" using len by (intro power_increasing) simp_all
  finally have small: "digits_value ?tl < 512" by simp
  show ?thesis
  proof (cases "length ds \<ge> 3")
    case True
    then have "length ?tl = 3" by simp
    moreover have "digits_value ds = digits_value ?hd * 8 ^ length ?tl + digits_value ?tl"
      using digits_value_append [of ?hd ?tl] by simp
    ultimately show ?thesis using small by simp
  next
    case False
    then show ?thesis using small by simp
  qed
qed

lemma last3_toString8: "from_octal (last3 (toString8 n)) = n mod 512"
proof -
  have "last3 (toString8 n) = map digit_char (drop (length (octal_digits n) - 3) (octal_digits n))"
    by (simp add: last3_def toString8_def drop_map)
  moreover have "\<forall>d \<in> set (drop (length (octal_digits n) - 3) (octal_digits n)). d < 8"
    using octal_digits_lt by (auto dest: in_set_dropD)
  ultimately show ?thesis
    by (simp add: from_octal_digits digits_value_last3 octal_digits_lt octal_digits_value)
qed

lemma getSFTP_ok:
  "map_of (connections m) k = Some c \<Longrightarrow> status c = Connected \<Longrightarrow> client c = Some h \<Longrightarrow>
   sftp c = None \<longrightarrow> sresp \<noteq> SftpFailed \<Longrightarrow>
   \<exists>s m'. getSFTP m k sresp = (Inr s, m')"
  by (auto simp: getSFTP_def Let_def split: option.splits sftp_response.splits)

subsection \<open>Session status\<close>

text \<open>
  C4 (as amended). Under identifiers that are not handed out twice, the status of a registered
  session changes only on an event of its own transport, and then whatever the status was:
  ready sets \<open>connected\<close>, error sets \<open>error\<close>, close sets \<open>disconnected\<close>. No call
  (disconnect, disconnectAll, execute, list, upload, download, the reconnect helper) and no
  timer changes a status, and nothing sets it back to \<open>connecting\<close>.
\<close>

theorem status_changes_with_transport_events:
  assumes "status_of m k = Some s" and "\<not> reuses_id a k"
  shows "status_of (step m a) k = Some (status_after a k s)"
proof (cases a)
  case (OpClose k')
  then show ?thesis using assms by (simp add: on_close_status)
next
  case (OpReady k' now)
  then show ?thesis using assms by (simp add: on_ready_status)
next
  case (OpError k')
  then show ?thesis using assms by (simp add: on_error_status)
next
  case (OpConnect config k' h now)
  then show ?thesis using assms by (simp add: connect_status)
qed (use assms in \<open>auto simp: Let_def on_disconnect_timeout_def disconnectAll_def
      attemptReconnect_def attemptReconnect_resume_def split: option.splits\<close>)

theorem status_changes_with_transport_events_witness:
  "status_of (run new_manager [OpConnect example_config (str ''s1'') 0 0, OpReady (str ''s1'') 1])
     (str ''s1'') = Some Connected
   \<and> \<not> reuses_id (OpDisconnect (str ''s1'')) (str ''s1'')
   \<and> status_of (step (run new_manager [OpConnect example_config (str ''s1'') 0 0, OpReady (str ''s1'') 1])
        (OpDisconnect (str ''s1''))) (str ''s1'') = Some Connected
   \<and> status_of (step (run new_manager [OpConnect example_config (str ''s1'') 0 0, OpReady (str ''s1'') 1])
        (OpClose (str ''s1''))) (str ''s1'') = Some Disconnected"
proof -
  let ?m = "run new_manager [OpConnect example_config (str ''s1'') 0 0, OpReady (str ''s1'') 1]"
  have h: "status_of ?m (str ''s1'') = Some Connected"
    by (simp add: run_def connect_status on_ready_status)
  have n1: "\<not> reuses_id (OpDisconnect (str ''s1'')) (str ''s1'')" by simp
  have n2: "\<not> reuses_id (OpClose (str ''s1'')) (str ''s1'')" by simp
  show ?thesis
    using h status_changes_with_transport_events [OF h n1]
      status_changes_with_transport_events [OF h n2]
    by simp
qed

text \<open>
  C4 as stated fails: a session whose transport reported an error has the status \<open>error\<close>,
  and the close event that follows moves it to \<open>disconnected\<close>.
\<close>

theorem error_status_not_terminal:
  "status_of (run new_manager [OpConnect example_config (str ''s1'') 0 0, OpError (str ''s1'')])
     (str ''s1'') = Some StatusError
   \<and> status_of (run new_manager [OpConnect example_config (str ''s1'') 0 0, OpError (str ''s1''),
        OpClose (str ''s1'')]) (str ''s1'') = Some Disconnected"
  by (simp add: run_def connect_status on_error_status on_close_status)

subsection \<open>Command execution\<close>

text \<open>
  C6. \<open>executeCommand\<close> on an unknown identifier, or on a session whose status is not
  \<open>connected\<close> (so \<open>connecting\<close>, \<open>error\<close> or \<open>disconnected\<close>), fails with
  \<open>SessionUnavailable\<close> and leaves the whole manager as it was: nothing is asked of the
  transport and the session is unchanged. Whenever it does anything else, the session exists,
  its status is \<open>connected\<close>, and exactly one execution channel was opened on its client.
\<close>

theorem executeCommand_requires_connected:
  "((case map_of (connections m) k of None \<Rightarrow> True | Some c \<Rightarrow> status c \<noteq> Connected)
      \<longrightarrow> executeCommand m k command resp = (Inl SessionUnavailable, m))
   \<and> (executeCommand m k command resp \<noteq> (Inl SessionUnavailable, m)
      \<longrightarrow> (\<exists>c h. map_of (connections m) k = Some c \<and> status c = Connected \<and> client c = Some h
             \<and> io (snd (executeCommand m k command resp)) = io m @ [ClientExec h command]))"
  by (auto simp: executeCommand_def call_def set_connection_def Let_def
      split: option.splits exec_response.splits)

theorem executeCommand_requires_connected_witness:
  "executeCommand (run new_manager [OpConnect example_config (str ''s1'') 7 0]) (str ''s1'')
      (str ''ls'') ExecFailed
     = (Inl SessionUnavailable, run new_manager [OpConnect example_config (str ''s1'') 7 0])
   \<and> io (snd (executeCommand
         (run new_manager [OpConnect example_config (str ''s1'') 7 0, OpReady (str ''s1'') 1])
         (str ''s1'') (str ''ls'') ExecFailed))
     = io (run new_manager [OpConnect example_config (str ''s1'') 7 0, OpReady (str ''s1'') 1])
         @ [ClientExec 7 (str ''ls'')]"
proof -
  let ?m1 = "run new_manager [OpConnect example_config (str ''s1'') 7 0]"
  let ?m2 = "run new_manager [OpConnect example_config (str ''s1'') 7 0, OpReady (str ''s1'') 1]"
  have c1: "map_of (connections ?m1) (str ''s1'') \<noteq> None"
    by (simp add: run_def connect_def Let_def update_conv')
  have s1: "status_of ?m1 (str ''s1'') = Some Connecting"
    by (simp add: run_def connect_status)
  have g1: "case map_of (connections ?m1) (str ''s1'') of None \<Rightarrow> True | Some c \<Rightarrow> status c \<noteq> Connected"
    using s1 by (auto simp: status_of_def split: option.splits)
  have e2: "fst (executeCommand ?m2 (str ''s1'') (str ''ls'') ExecFailed) = Inl TransportError"
    by (simp add: run_def connect_def on_ready_def executeCommand_def Let_def update_conv')
  then have g2: "executeCommand ?m2 (str ''s1'') (str ''ls'') ExecFailed \<noteq> (Inl SessionUnavailable, ?m2)"
    by auto
  have cl: "client c = Some 7" if "map_of (connections ?m2) (str ''s1'') = Some c" for c
    using that by (auto simp: run_def connect_def on_ready_def Let_def update_conv')
  show ?thesis
    using executeCommand_requires_connected [of ?m1 "str ''s1''" "str ''ls''" ExecFailed]
      executeCommand_requires_connected [of ?m2 "str ''s1''" "str ''ls''" ExecFailed] g1 g2 cl
    by auto
qed

subsection \<open>Directory listing\<close>

lemma file_infos_Some:
  "(\<And>item. item \<in> set items \<Longrightarrow> a_mode (item_attrs item) \<noteq> None) \<Longrightarrow>
     \<exists>files. file_infos items = Some files \<and> length files = length items
       \<and> (\<forall>i < length items. to_file_info (items ! i) = Some (files ! i))"
proof (induction items)
  case Nil
  show ?case by simp
next
  case (Cons item items)
  from Cons.prems [of item] obtain f where f: "to_file_info item = Some f"
    by (auto simp: to_file_info_def split: option.splits)
  from Cons.IH Cons.prems obtain files where
    files: "file_infos items = Some files" "length files = length items"
      "\<And>i. i < length items \<Longrightarrow> to_file_info (items ! i) = Some (files ! i)"
    by auto
  have "to_file_info ((item # items) ! i) = Some ((f # files) ! i)" if "i < length (item # items)" for i
    using that f files(3) by (cases i) simp_all
  then show ?case using f files(1,2) by auto
qed

lemma file_infos_None:
  "item \<in> set items \<Longrightarrow> a_mode (item_attrs item) = None \<Longrightarrow> file_infos items = None"
  by (induction items) (auto simp: to_file_info_def split: option.splits)

text \<open>
  C7 (as amended). On a connected session whose file-transfer channel is there or opens, and
  whose \<open>readdir\<close> answers a list in which every entry's attributes carry a mode,
  \<open>listFiles\<close> returns one entry per remote entry, in order, with the remote name and size;
  the kind is \<open>directory\<close> exactly when the remote attributes mark a directory; the
  permission string is the octal rendering of the remote mode (read back as an octal numeral
  it is the mode, and its last three digits are the mode's permission bits, the mode modulo
  0o1000); the modification time is the remote epoch seconds times 1000 when the attributes
  carry an \<open>mtime\<close>, and an invalid date when they do not.
\<close>

theorem listFiles_entries:
  assumes "map_of (connections m) k = Some c" and "status c = Connected" and "client c = Some h"
    and "sftp c = None \<longrightarrow> sresp \<noteq> SftpFailed"
    and "\<forall>item \<in> set items. a_mode (item_attrs item) \<noteq> None"
  shows "\<exists>files. fst (listFiles m k path sresp (ReaddirList items)) = Some (Inr files)
     \<and> length files = length items
     \<and> (\<forall>i < length items.
          fi_name (files ! i) = filename (items ! i)
        \<and> fi_size (files ! i) = a_size (item_attrs (items ! i))
        \<and> (fi_type (files ! i) = Directory \<longleftrightarrow> isDirectory (item_attrs (items ! i)))
        \<and> Some (permissions (files ! i)) = map_option toString8 (a_mode (item_attrs (items ! i)))
        \<and> Some (from_octal (permissions (files ! i))) = a_mode (item_attrs (items ! i))
        \<and> Some (from_octal (last3 (permissions (files ! i))))
            = map_option (\<lambda>mode. mode mod 512) (a_mode (item_attrs (items ! i)))
        \<and> modified (files ! i) = map_option (\<lambda>mtime. mtime * 1000) (a_mtime (item_attrs (items ! i))))"
proof -
  from getSFTP_ok [OF assms(1-4)] obtain s m' where "getSFTP m k sresp = (Inr s, m')" by blast
  then have l: "fst (listFiles m k path sresp (ReaddirList items)) = map_option Inr (file_infos items)"
    by (simp add: listFiles_def Let_def)
  from file_infos_Some [of items] assms(5) obtain files where
    files: "file_infos items = Some files" "length files = length items"
      "\<And>i. i < length items \<Longrightarrow> to_file_info (items ! i) = Some (files ! i)"
    by auto
  have "fi_name (files ! i) = filename (items ! i)
        \<and> fi_size (files ! i) = a_size (item_attrs (items ! i))
        \<and> (fi_type (files ! i) = Directory \<longleftrightarrow> isDirectory (item_attrs (items ! i)))
        \<and> Some (permissions (files ! i)) = map_option toString8 (a_mode (item_attrs (items ! i)))
        \<and> Some (from_octal (permissions (files ! i))) = a_mode (item_attrs (items ! i))
        \<and> Some (from_octal (last3 (permissions (files ! i))))
            = map_option (\<lambda>mode. mode mod 512) (a_mode (item_attrs (items ! i)))
        \<and> modified (files ! i) = map_option (\<lambda>mtime. mtime * 1000) (a_mtime (item_attrs (items ! i)))"
    if "i < length items" for i
  proof -
    from assms(5) nth_mem [OF that] obtain mode
      where mode: "a_mode (item_attrs (items ! i)) = Some mode"
      by auto
    with files(3) [OF that] have "files ! i =
        \<lparr>fi_name = filename (items ! i),
         fi_size = a_size (item_attrs (items ! i)),
         fi_type = (if isDirectory (item_attrs (items ! i)) then Directory else File),
         permissions = toString8 mode,
         modified = map_option (\<lambda>mtime. mtime * 1000) (a_mtime (item_attrs (items ! i)))\<rparr>"
      by (simp add: to_file_info_def)
    then show ?thesis using mode
      by (simp add: from_octal_toString8 last3_toString8)
  qed
  then show ?thesis using l files(1,2) by simp
qed

theorem listFiles_entries_witness:
  "map_of (connections (run new_manager [OpConnect example_config (str ''s1'') 7 0, OpReady (str ''s1'') 1]))
      (str ''s1'')
     = Some \<lparr>conn_id = str ''s1'', host = str ''h'', port = 22, username = str ''u'',
             status = Connected, connectedAt = Some 1, lastActivity = None,
             client = Some 7, sftp = None\<rparr>
   \<and> a_mode (item_attrs (example_items ! 0)) = Some 16877
   \<and> a_mode (item_attrs (example_items ! 1)) = Some 33188
   \<and> fst (listFiles (run new_manager [OpConnect example_config (str ''s1'') 7 0, OpReady (str ''s1'') 1])
         (str ''s1'') (str ''/'') (SftpOpened 9) (ReaddirList example_items))
     = Some (Inr [\<lparr>fi_name = str ''src'', fi_size = Some 4096, fi_type = Directory,
                    permissions = str ''40755'', modified = Some 1700000000000\<rparr>,
                  \<lparr>fi_name = str ''a.txt'', fi_size = Some 12, fi_type = File,
                    permissions = str ''100644'', modified = None\<rparr>])"
proof -
  let ?m = "run new_manager [OpConnect example_config (str ''s1'') 7 0, OpReady (str ''s1'') 1]"
  let ?c = "\<lparr>conn_id = str ''s1'', host = str ''h'', port = 22, username = str ''u'',
             status = Connected, connectedAt = Some 1, lastActivity = None,
             client = Some (7::nat), sftp = None\<rparr>"
  have h1: "map_of (connections ?m) (str ''s1'') = Some ?c"
    by (simp add: run_def connect_def on_ready_def Let_def update_conv' example_config_def
        or_default_def or_default_num_def str_def)
  have h2: "status ?c = Connected" and h3: "client ?c = Some 7"
    and h4: "sftp ?c = None \<longrightarrow> SftpOpened 9 \<noteq> SftpFailed"
    by simp_all
  have h5: "\<forall>item \<in> set example_items. a_mode (item_attrs item) \<noteq> None"
    and modes: "a_mode (item_attrs (example_items ! 0)) = Some 16877"
      "a_mode (item_attrs (example_items ! 1)) = Some 33188"
    by (simp_all add: example_items_def)
  obtain files where
    f: "fst (listFiles ?m (str ''s1'') (str ''/'') (SftpOpened 9) (ReaddirList example_items))
          = Some (Inr files)"
    using listFiles_entries [OF h1 h2 h3 h4 h5] by blast
  have "fst (listFiles ?m (str ''s1'') (str ''/'') (SftpOpened 9) (ReaddirList example_items))
      = map_option Inr (file_infos example_items)"
    using h1 by (simp add: listFiles_def getSFTP_def Let_def call_def)
  moreover have "file_infos example_items =
      Some [\<lparr>fi_name = str ''src'', fi_size = Some 4096, fi_type = Directory,
              permissions = str ''40755'', modified = Some 1700000000000\<rparr>,
            \<lparr>fi_name = str ''a.txt'', fi_size = Some 12, fi_type = File,
              permissions = str ''100644'', modified = None\<rparr>]"
    by (simp add: example_items_def to_file_info_def isDirectory_def toString8_def
        octal_digits.simps digit_char_def str_def)
  ultimately show ?thesis using h1 f modes by simp
qed

text \<open>
  C7 as stated fails: on a connected session, a listing with one entry whose attributes carry
  no mode makes \<open>listFiles\<close> return no entry at all; its promise is never settled.
\<close>

theorem entry_without_mode_never_listed:
  "status_of (run new_manager [OpConnect example_config (str ''s1'') 7 0, OpReady (str ''s1'') 1])
      (str ''s1'') = Some Connected
   \<and> fst (listFiles (run new_manager [OpConnect example_config (str ''s1'') 7 0, OpReady (str ''s1'') 1])
         (str ''s1'') (str ''/'') (SftpOpened 9) (ReaddirList [example_item_without_mode]))
     = None"
  by (simp add: run_def connect_def on_ready_def Let_def update_conv' listFiles_def getSFTP_def
      status_of_def to_file_info_def example_item_without_mode_def)

subsection \<open>Reconnection\<close>

lemma run_Nil: "run m [] = m"
  by (simp add: run_def)

lemma resume_alone:
  "connections (attemptReconnect_resume m k n) = connections m"
  "io (attemptReconnect_resume m k n) = io m"
  by (simp_all add: attemptReconnect_resume_def emit_def split: option.splits)

text \<open>
  C8 (as amended). For a session the helper has not been called for, its call number \<open>n\<close>
  (counted from 0) counts the attempt and asks the timer for exactly \<open>2 ^ n\<close> seconds
  (\<open>2 ^ n * 1000\<close> milliseconds), as long as \<open>n < 3\<close>; when the timer has fired it emits
  \<open>reconnecting\<close> with the attempt number \<open>n + 1\<close> if the session is still registered, and does
  nothing else: it re-attempts no connection, asks nothing of the transport and changes no
  session. From the call number 3 on it emits \<open>reconnect-failed\<close> with the count 3, sets no
  timer and changes nothing else.
\<close>

theorem attemptReconnect_backoff:
  "attempts_of m k = 0 \<Longrightarrow>
     attemptReconnect (reconnect_calls n m k) k =
       (if n < 3
        then (Some (2 ^ n * 1000, n),
              call (SetTimeout (2 ^ n * 1000))
                ((reconnect_calls n m k)\<lparr>reconnectAttempts :=
                    AList.update k (n + 1) (reconnectAttempts (reconnect_calls n m k))\<rparr>))
        else (None, emit (ConnectionReconnectFailed k 3) (reconnect_calls n m k)))
   \<and> reconnect_through (reconnect_calls n m k) k during =
       (if n < 3
        then (if getConnection (run (snd (attemptReconnect (reconnect_calls n m k) k)) during) k = None
              then run (snd (attemptReconnect (reconnect_calls n m k) k)) during
              else emit (ConnectionReconnecting k (n + 1))
                     (run (snd (attemptReconnect (reconnect_calls n m k) k)) during))
        else emit (ConnectionReconnectFailed k 3) (reconnect_calls n m k))
   \<and> connections (reconnect_through (reconnect_calls n m k) k []) = connections (reconnect_calls n m k)
   \<and> io (reconnect_through (reconnect_calls n m k) k [])
       = io (reconnect_calls n m k) @ (if n < 3 then [SetTimeout (2 ^ n * 1000)] else [])"
proof -
  assume "attempts_of m k = 0"
  then have a: "attempts_of (reconnect_calls n m k) k = min n 3"
    by (rule attempts_after_calls)
  let ?M = "reconnect_calls n m k"
  have 1: "attemptReconnect ?M k =
       (if n < 3
        then (Some (2 ^ n * 1000, n),
              call (SetTimeout (2 ^ n * 1000))
                (?M\<lparr>reconnectAttempts := AList.update k (n + 1) (reconnectAttempts ?M)\<rparr>))
        else (None, emit (ConnectionReconnectFailed k 3) ?M))"
    using a by (simp add: attemptReconnect_def Let_def maxReconnectAttempts_def min_def split: if_splits)
  have 2: "reconnect_through ?M k during =
       (if n < 3
        then (if getConnection (run (snd (attemptReconnect ?M k)) during) k = None
              then run (snd (attemptReconnect ?M k)) during
              else emit (ConnectionReconnecting k (n + 1)) (run (snd (attemptReconnect ?M k)) during))
        else emit (ConnectionReconnectFailed k 3) ?M)"
    unfolding reconnect_through_def 1
    by (auto simp: attemptReconnect_resume_def getConnection_def split: option.splits)
  have 3: "connections (reconnect_through ?M k []) = connections ?M"
    unfolding reconnect_through_def 1 by (simp add: resume_alone run_def)
  have 4: "io (reconnect_through ?M k []) = io ?M @ (if n < 3 then [SetTimeout (2 ^ n * 1000)] else [])"
    unfolding reconnect_through_def 1 by (simp add: resume_alone run_def call_def emit_def)
  show ?thesis using 1 2 3 4 by blast
qed

theorem attemptReconnect_backoff_witness:
  "attempts_of (run new_manager [OpConnect example_config (str ''s1'') 7 0, OpClose (str ''s1'')])
      (str ''s1'') = 0
   \<and> fst (attemptReconnect
        (reconnect_calls 0 (run new_manager [OpConnect example_config (str ''s1'') 7 0, OpClose (str ''s1'')])
           (str ''s1'')) (str ''s1'')) = Some (1000, 0)
   \<and> fst (attemptReconnect
        (reconnect_calls 2 (run new_manager [OpConnect example_config (str ''s1'') 7 0, OpClose (str ''s1'')])
           (str ''s1'')) (str ''s1'')) = Some (4000, 2)
   \<and> fst (attemptReconnect
        (reconnect_calls 3 (run new_manager [OpConnect example_config (str ''s1'') 7 0, OpClose (str ''s1'')])
           (str ''s1'')) (str ''s1'')) = None
   \<and> emitted (reconnect_through
        (reconnect_calls 2 (run new_manager [OpConnect example_config (str ''s1'') 7 0, OpClose (str ''s1'')])
           (str ''s1'')) (str ''s1'') [])
       = [ConnectionConnecting (str ''s1''), ConnectionDisconnected (str ''s1''),
          ConnectionReconnecting (str ''s1'') 3]
   \<and> io (reconnect_through
        (reconnect_calls 2 (run new_manager [OpConnect example_config (str ''s1'') 7 0, OpClose (str ''s1'')])
           (str ''s1'')) (str ''s1'') [])
       = [ClientConnect 7 example_config 30000 3 20000, SetTimeout 1000, SetTimeout 2000, SetTimeout 4000]
   \<and> reconnect_through
        (reconnect_calls 3 (run new_manager [OpConnect example_config (str ''s1'') 7 0, OpClose (str ''s1'')])
           (str ''s1'')) (str ''s1'') []
       = emit (ConnectionReconnectFailed (str ''s1'') 3)
           (reconnect_calls 3 (run new_manager [OpConnect example_config (str ''s1'') 7 0, OpClose (str ''s1'')])
              (str ''s1''))"
proof -
  let ?m = "run new_manager [OpConnect example_config (str ''s1'') 7 0, OpClose (str ''s1'')]"
  let ?k = "str ''s1''"
  have h: "attempts_of ?m ?k = 0"
    by (simp add: run_def connect_def on_close_def close_listener_def Let_def attempts_of_def
        new_manager_def emit_def call_def set_connection_def update_conv')
  have m: "emitted ?m = [ConnectionConnecting ?k, ConnectionDisconnected ?k]"
    "io ?m = [ClientConnect 7 example_config 30000 3 20000]"
    "getConnection ?m ?k \<noteq> None"
    by (simp_all add: run_def connect_def on_close_def close_listener_def Let_def getConnection_def
        new_manager_def emit_def call_def set_connection_def update_conv')
  have calls: "emitted (reconnect_calls 2 ?m ?k) = emitted ?m"
    "io (reconnect_calls 2 ?m ?k) = io ?m @ [SetTimeout 1000, SetTimeout 2000]"
    "connections (reconnect_calls 2 ?m ?k) = connections ?m"
    using h
    by (simp_all add: reconnect_calls_def numeral_2_eq_2 attemptReconnect_def Let_def
        maxReconnectAttempts_def attempts_of_def call_def update_conv')
  note t0 = attemptReconnect_backoff [OF h, of 0 "[]"]
  note t2 = attemptReconnect_backoff [OF h, of 2 "[]"]
  note t3 = attemptReconnect_backoff [OF h, of 3 "[]"]
  from t0 [THEN conjunct1] have c1: "fst (attemptReconnect (reconnect_calls 0 ?m ?k) ?k) = Some (1000, 0)"
    by simp
  from t2 [THEN conjunct1] have c2: "fst (attemptReconnect (reconnect_calls 2 ?m ?k) ?k) = Some (4000, 2)"
    by simp
  from t3 [THEN conjunct1] have c3: "fst (attemptReconnect (reconnect_calls 3 ?m ?k) ?k) = None"
    by simp
  from t2 [THEN conjunct1] have s2: "snd (attemptReconnect (reconnect_calls 2 ?m ?k) ?k) =
      call (SetTimeout 4000)
        ((reconnect_calls 2 ?m ?k)\<lparr>reconnectAttempts :=
            AList.update ?k 3 (reconnectAttempts (reconnect_calls 2 ?m ?k))\<rparr>)"
    by simp
  have g: "getConnection (snd (attemptReconnect (reconnect_calls 2 ?m ?k) ?k)) ?k \<noteq> None"
    unfolding s2 using calls(3) m(3) by (simp add: getConnection_def)
  from t2 [THEN conjunct2, THEN conjunct1] g have "reconnect_through (reconnect_calls 2 ?m ?k) ?k []
      = emit (ConnectionReconnecting ?k 3) (snd (attemptReconnect (reconnect_calls 2 ?m ?k) ?k))"
    by (simp add: run_Nil)
  then have c4: "emitted (reconnect_through (reconnect_calls 2 ?m ?k) ?k [])
      = [ConnectionConnecting ?k, ConnectionDisconnected ?k, ConnectionReconnecting ?k 3]"
    unfolding s2 using calls(1) m(1) by (simp add: emit_def call_def)
  from t2 [THEN conjunct2, THEN conjunct2, THEN conjunct2]
  have "io (reconnect_through (reconnect_calls 2 ?m ?k) ?k [])
      = io (reconnect_calls 2 ?m ?k) @ [SetTimeout 4000]"
    by simp
  then have c5: "io (reconnect_through (reconnect_calls 2 ?m ?k) ?k [])
      = [ClientConnect 7 example_config 30000 3 20000, SetTimeout 1000, SetTimeout 2000, SetTimeout 4000]"
    using calls(2) m(2) by simp
  from t3 [THEN conjunct2, THEN conjunct1] have c6: "reconnect_through (reconnect_calls 3 ?m ?k) ?k []
      = emit (ConnectionReconnectFailed ?k 3) (reconnect_calls 3 ?m ?k)"
    by simp
  from h c1 c2 c3 c4 c5 c6 show ?thesis by blast
qed

text \<open>
  C8 as stated fails: the helper re-attempts nothing. For a session whose transport has
  closed, the first run of the helper waits one second and then emits \<open>reconnecting\<close>; the
  only connection the transport was ever asked for is the one of \<open>connect\<close>, and the session
  stays \<open>disconnected\<close>.
\<close>

theorem reconnect_attempts_nothing:
  "status_of (run new_manager [OpConnect example_config (str ''s1'') 7 0, OpClose (str ''s1'')])
      (str ''s1'') = Some Disconnected
   \<and> io (reconnect_through
        (run new_manager [OpConnect example_config (str ''s1'') 7 0, OpClose (str ''s1'')])
        (str ''s1'') [])
       = [ClientConnect 7 example_config 30000 3 20000, SetTimeout 1000]
   \<and> emitted (reconnect_through
        (run new_manager [OpConnect example_config (str ''s1'') 7 0, OpClose (str ''s1'')])
        (str ''s1'') [])
       = [ConnectionConnecting (str ''s1''), ConnectionDisconnected (str ''s1''),
          ConnectionReconnecting (str ''s1'') 1]
   \<and> status_of (reconnect_through
        (run new_manager [OpConnect example_config (str ''s1'') 7 0, OpClose (str ''s1'')])
        (str ''s1'') []) (str ''s1'') = Some Disconnected"
  by (simp add: run_def connect_def on_close_def close_listener_def Let_def attempts_of_def
      new_manager_def emit_def call_def set_connection_def update_conv' status_of_def
      reconnect_through_def attemptReconnect_def attemptReconnect_resume_def
      maxReconnectAttempts_def)

subsection \<open>The registry only grows\<close>

text \<open>
  C9. After any sequence of calls and events of the manager (connect, disconnect,
  disconnectAll and all the others) from its initial state, every session a \<open>connect\<close> of
  the sequence created is still in the session map and among the connections that
  \<open>getActiveConnections\<close> returns, whatever its status has become.
\<close>

theorem sessions_never_removed:
  "OpConnect config k h now \<in> set acts \<Longrightarrow>
     getConnection (run new_manager acts) k \<noteq> None \<and>
     k \<in> conn_id ` set (getActiveConnections (run new_manager acts))"
proof -
  assume "OpConnect config k h now \<in> set acts"
  then obtain xs ys where acts: "acts = xs @ OpConnect config k h now # ys"
    by (auto simp: in_set_conv_decomp)
  have "k \<in> ids (run new_manager (xs @ [OpConnect config k h now]))"
    by (simp add: run_def connect_ids del: step.simps)
  moreover have "run new_manager acts = run (run new_manager (xs @ [OpConnect config k h now])) ys"
    by (simp add: acts run_def)
  ultimately have "k \<in> ids (run new_manager acts)"
    using run_ids by fastforce
  moreover have "keyed (run new_manager acts)"
    by (rule run_keyed [OF keyed_new])
  ultimately show ?thesis using listed by blast
qed

theorem sessions_never_removed_witness:
  "OpConnect example_config (str ''s1'') 7 0
     \<in> set [OpConnect example_config (str ''s1'') 7 0, OpReady (str ''s1'') 1,
            OpDisconnect (str ''s1''), OpClose (str ''s1''), OpDisconnectAll]
   \<and> getConnection (run new_manager [OpConnect example_config (str ''s1'') 7 0, OpReady (str ''s1'') 1,
            OpDisconnect (str ''s1''), OpClose (str ''s1''), OpDisconnectAll]) (str ''s1'') \<noteq> None
   \<and> str ''s1'' \<in> conn_id ` set (getActiveConnections
         (run new_manager [OpConnect example_config (str ''s1'') 7 0, OpReady (str ''s1'') 1,
            OpDisconnect (str ''s1''), OpClose (str ''s1''), OpDisconnectAll]))
   \<and> status_of (run new_manager [OpConnect example_config (str ''s1'') 7 0, OpReady (str ''s1'') 1,
            OpDisconnect (str ''s1''), OpClose (str ''s1''), OpDisconnectAll]) (str ''s1'')
       = Some Disconnected"
proof -
  let ?acts = "[OpConnect example_config (str ''s1'') 7 0, OpReady (str ''s1'') 1,
            OpDisconnect (str ''s1''), OpClose (str ''s1''), OpDisconnectAll]"
  have h: "OpConnect example_config (str ''s1'') 7 0 \<in> set ?acts" by simp
  have s: "status_of (run new_manager ?acts) (str ''s1'') = Some Disconnected"
    by (simp add: run_def disconnectAll_def connect_status on_ready_status on_close_status)
  show ?thesis
    using h s sessions_never_removed [OF h] by blast
qed

section \<open>Properties of KeyManager\<close>

subsection \<open>PEM text and the markers of determineKeyType\<close>

lemma pairs_append:
  "(a, b) \<in> set (pairs (xs @ ys)) \<Longrightarrow>
     (a, b) \<in> set (pairs xs) \<or> (a, b) \<in> set (pairs ys)
     \<or> (xs \<noteq> [] \<and> ys \<noteq> [] \<and> a = last xs \<and> b = hd ys)"
proof (induction xs)
  case Nil
  then show ?case by simp
next
  case (Cons x xs)
  show ?case
  proof (cases xs)
    case Nil
    with Cons.prems show ?thesis by (cases ys) (auto simp: pairs_def)
  next
    case (Cons x' xs')
    with Cons.prems Cons.IH show ?thesis by (auto simp: pairs_def)
  qed
qed

lemma pairs_Cons: "pairs (c # cs) = (case cs of [] \<Rightarrow> [] | d # r \<Rightarrow> (c, d) # pairs cs)"
  by (cases cs) (simp_all add: pairs_def)

lemma pairs_take: "set (pairs (take n s)) \<subseteq> set (pairs s)"
proof (induction s arbitrary: n)
  case Nil
  show ?case by simp
next
  case (Cons c cs)
  show ?case
  proof (cases n)
    case 0
    then show ?thesis by (simp add: pairs_def)
  next
    case (Suc k)
    have ih: "set (pairs (take k cs)) \<subseteq> set (pairs cs)" by (rule Cons.IH)
    show ?thesis
    proof (cases "take k cs")
      case Nil
      with Suc have "take n (c # cs) = [c]" by simp
      then show ?thesis by (simp add: pairs_def)
    next
      case (Cons d r)
      then have "hd cs = d" and "cs \<noteq> []" by (cases k; cases cs; auto)+
      then obtain r' where "cs = d # r'" by (cases cs) auto
      with Suc Cons ih show ?thesis by (auto simp: pairs_Cons)
    qed
  qed
qed

lemma includes_js_pairs:
  "includes_js s p \<Longrightarrow> set (pairs p) \<subseteq> set (pairs s)"
proof (induction s)
  case Nil
  then show ?case by simp
next
  case (Cons c cs)
  from Cons.prems have "take (length p) (c # cs) = p \<or> includes_js cs p" by simp
  then show ?case
  proof
    assume "take (length p) (c # cs) = p"
    then show ?thesis using pairs_take [of "length p" "c # cs"] by simp
  next
    assume "includes_js cs p"
    then have "set (pairs p) \<subseteq> set (pairs cs)" by (rule Cons.IH)
    moreover have "set (pairs cs) \<subseteq> set (pairs (c # cs))"
      by (cases cs) (auto simp: pairs_def)
    ultimately show ?thesis by blast
  qed
qed

lemma unat_word16: "n < 65536 \<Longrightarrow> unat (word_of_nat n :: 16 word) = n"
  by (rule of_nat_inverse [OF refl]) simp

lemma unat_word8: "n < 256 \<Longrightarrow> unat (word_of_nat n :: 8 word) = n"
  by (rule of_nat_inverse [OF refl]) simp

lemma unat_byte_lt: "unat (b :: 8 word) < 256"
  using unsigned_less [of b, where ?'a = nat] by simp

lemma unat_unit_lt: "unat (u :: 16 word) < 65536"
  using unsigned_less [of u, where ?'a = nat] by simp

lemma base64_char_unat:
  "i < 64 \<Longrightarrow> unat (base64_char i) =
     (if i < 26 then 65 + i else if i < 52 then 71 + i else if i < 62 then i - 4
      else if i = 62 then 43 else 47)"
  unfolding base64_char_def
  by (simp add: unat_word16 del: of_nat_add of_nat_diff)

lemma base64_char_range:
  assumes "i < 64"
  shows "unat (base64_char i) \<in> {65..90} \<union> {97..122} \<union> {48..57} \<union> {43, 47}"
  using assms by (auto simp: base64_char_unat)

lemma base64_text_charI: "n < 64 \<Longrightarrow> base64_text_char (base64_char n)"
  by (auto simp: base64_text_char_def)

lemma base64_text_char_pad: "base64_text_char 61"
  by (simp add: base64_text_char_def)

lemma sextet_bounds:
  "unat (a :: 8 word) div 4 < 64" "unat a mod 4 * 16 < 64"
  "unat a mod 4 * 16 + unat (b :: 8 word) div 16 < 64" "unat a mod 16 * 4 < 64"
  "unat a mod 16 * 4 + unat b div 64 < 64" "unat a mod 64 < 64"
  using unat_byte_lt [of a] unat_byte_lt [of b] by simp_all

lemma base64_encode_text: "\<forall>c \<in> set (base64_encode bs). base64_text_char c"
  by (induction bs rule: base64_encode.induct)
     (simp_all add: base64_text_charI base64_text_char_pad sextet_bounds)

lemma base64_encode_chars:
  "c \<in> set (base64_encode bs) \<Longrightarrow> c = 61 \<or> (\<exists>i < 64. c = base64_char i)"
  using base64_encode_text [of bs] by (auto simp: base64_text_char_def)

lemma base64_encode_no_space_dash:
  "c \<in> set (base64_encode bs) \<Longrightarrow> c \<noteq> 32 \<and> c \<noteq> 45"
proof -
  assume "c \<in> set (base64_encode bs)"
  then consider "c = 61" | i where "i < 64" "c = base64_char i"
    using base64_encode_chars by blast
  then show ?thesis
  proof cases
    case 1
    then show ?thesis by simp
  next
    case 2
    from base64_char_range [OF 2(1)] have "unat c \<noteq> 32 \<and> unat c \<noteq> 45"
      unfolding 2(2) by auto
    then show ?thesis by auto
  qed
qed

lemma pem_lines_chars: "set (pem_lines s) \<subseteq> insert 10 (set s)"
proof (induction s rule: pem_lines.induct)
  case (1 s)
  show ?case
  proof (cases "s = []")
    case True
    then show ?thesis by (subst pem_lines.simps) simp
  next
    case False
    with 1 have "set (pem_lines (drop 64 s)) \<subseteq> insert 10 (set (drop 64 s))" by simp
    then have "set (pem_lines (drop 64 s)) \<subseteq> insert 10 (set s)"
      using set_drop_subset [of 64 s] by blast
    with False show ?thesis
      using set_take_subset [of 64 s] by (subst pem_lines.simps) auto
  qed
qed

lemma pem_body_chars: "c \<in> set (pem_lines (base64_encode der)) \<Longrightarrow> c \<noteq> 32 \<and> c \<noteq> 45"
  using pem_lines_chars [of "base64_encode der"] base64_encode_no_space_dash [of c der]
  by auto

lemma pairs_fst: "(a, b) \<in> set (pairs s) \<Longrightarrow> a \<in> set s"
  by (auto simp: pairs_def dest: set_zip_leftD)

lemma pairs_framed:
  assumes "(a, b) \<in> set (pairs (h @ body @ f))" and "a \<notin> set body" and "h \<noteq> []"
    and "a \<noteq> last h"
  shows "(a, b) \<in> set (pairs h) \<or> (a, b) \<in> set (pairs f)"
proof -
  from pairs_append [OF assms(1)] assms(3,4)
  have "(a, b) \<in> set (pairs h) \<or> (a, b) \<in> set (pairs (body @ f))" by auto
  then show ?thesis
  proof
    assume "(a, b) \<in> set (pairs (body @ f))"
    from pairs_append [OF this] assms(2) show ?thesis
      by (auto dest: pairs_fst)
  qed simp
qed

lemma export_pem_public:
  "export_pem ''PUBLIC KEY'' der = pem_header @ pem_lines (base64_encode der) @ pem_footer"
  by (simp add: export_pem_def pem_header_def pem_footer_def str_def)

lemma pem_pairs:
  assumes "(a, b) \<in> set (pairs (export_pem ''PUBLIC KEY'' der))" and "a = 32 \<or> a = 45"
  shows "(a, b) \<in> set (pairs pem_header) \<union> set (pairs pem_footer)"
proof -
  have "a \<notin> set (pem_lines (base64_encode der))"
    using assms(2) pem_body_chars [of a der] by blast
  moreover have "pem_header \<noteq> []" and "a \<noteq> last pem_header"
    using assms(2) by (auto simp: pem_header_def)
  ultimately show ?thesis
    using assms(1) pairs_framed [of a b pem_header "pem_lines (base64_encode der)" pem_footer]
    by (simp add: export_pem_public)
qed

lemma pem_excludes:
  assumes "(a, b) \<in> set (pairs marker)" and "a = 32 \<or> a = 45"
    and "(a, b) \<notin> set (pairs pem_header) \<union> set (pairs pem_footer)"
  shows "\<not> includes_js (export_pem ''PUBLIC KEY'' der) marker"
proof
  assume "includes_js (export_pem ''PUBLIC KEY'' der) marker"
  from includes_js_pairs [OF this] assms(1)
  have "(a, b) \<in> set (pairs (export_pem ''PUBLIC KEY'' der))" by blast
  from pem_pairs [OF this assms(2)] assms(3) show False by blast
qed

lemma determineKeyType_pem:
  "determineKeyType (export_pem ''PUBLIC KEY'' der) = Inl (KeyFormatError UnableToDetermineKeyType)"
proof -
  let ?pem = "export_pem ''PUBLIC KEY'' der"
  have 1: "\<not> includes_js ?pem (str ''BEGIN RSA PUBLIC KEY'')"
    by (rule pem_excludes [of 32 82]) (simp_all add: pem_header_def pem_footer_def str_def pairs_def)
  have 2: "\<not> includes_js ?pem (str ''ssh-rsa'')"
    by (rule pem_excludes [of 45 114]) (simp_all add: pem_header_def pem_footer_def str_def pairs_def)
  have 3: "\<not> includes_js ?pem (str ''BEGIN ED25519 PUBLIC KEY'')"
    by (rule pem_excludes [of 32 69]) (simp_all add: pem_header_def pem_footer_def str_def pairs_def)
  have 4: "\<not> includes_js ?pem (str ''ssh-ed25519'')"
    by (rule pem_excludes [of 45 101]) (simp_all add: pem_header_def pem_footer_def str_def pairs_def)
  have 5: "\<not> includes_js ?pem (str ''BEGIN EC PUBLIC KEY'')"
    by (rule pem_excludes [of 32 69]) (simp_all add: pem_header_def pem_footer_def str_def pairs_def)
  have 6: "\<not> includes_js ?pem (str ''ecdsa-sha2-'')"
    by (rule pem_excludes [of 45 115]) (simp_all add: pem_header_def pem_footer_def str_def pairs_def)
  show ?thesis by (simp add: determineKeyType_def 1 2 3 4 5 6)
qed

subsection \<open>split and trim\<close>

lemma split_on_nonempty [simp]: "split_on P s \<noteq> []"
  by (induction s) (auto split: list.splits)

lemma split_on_length: "length (split_on P s) = Suc (length (filter P s))"
  by (induction s) (auto split: list.splits)

lemma split_on_sep:
  "P sep \<Longrightarrow> split_on P (xs @ sep # ys) = split_on P xs @ split_on P ys"
proof (induction xs)
  case Nil
  then show ?case by simp
next
  case (Cons x xs)
  then have ih: "split_on P (xs @ sep # ys) = split_on P xs @ split_on P ys" by simp
  show ?case
  proof (cases "P x")
    case True
    then show ?thesis by (simp add: ih)
  next
    case False
    obtain p ps where sp: "split_on P xs = p # ps"
      using split_on_nonempty [of P xs] by (cases "split_on P xs") auto
    with False show ?thesis by (simp add: ih)
  qed
qed

lemma split_on_none: "\<forall>c \<in> set s. \<not> P c \<Longrightarrow> split_on P s = [s]"
  by (induction s) auto

lemma concat_split_on: "concat (split_on P s) = filter (\<lambda>c. \<not> P c) s"
  by (induction s) (auto split: list.splits)

lemma split_on_has_field:
  assumes "c \<in> set s" and "\<not> P c"
  shows "filter (\<lambda>f. f \<noteq> []) (split_on P s) \<noteq> []"
proof
  assume "filter (\<lambda>f. f \<noteq> []) (split_on P s) = []"
  then have "\<forall>f \<in> set (split_on P s). f = []" by (auto simp: filter_empty_conv)
  then have "concat (split_on P s) = []" by simp
  then have "filter (\<lambda>c. \<not> P c) s = []" by (simp add: concat_split_on)
  with assms show False by (auto simp: filter_empty_conv)
qed

lemma trim_end_keep:
  "\<not> is_js_space a \<Longrightarrow> trim_end (xs @ a # ys) = xs @ a # trim_end ys"
  by (simp add: trim_end_def dropWhile_append)

lemma trim_trim_end: "trim s = trim_end (dropWhile is_js_space s)"
  by (simp add: trim_def trim_end_def)

lemma trim_end_decomp: "\<exists>suf. s = trim_end s @ suf"
proof -
  have "rev (dropWhile is_js_space (rev s)) @ rev (takeWhile is_js_space (rev s))
      = rev (takeWhile is_js_space (rev s) @ dropWhile is_js_space (rev s))"
    by (simp only: rev_append)
  also have "\<dots> = s" by (simp only: takeWhile_dropWhile_id rev_rev_ident)
  finally show ?thesis unfolding trim_end_def by metis
qed

lemma trim_decomp:
  "\<exists>pre suf. s = pre @ trim s @ suf"
proof -
  obtain suf where "dropWhile is_js_space s = trim s @ suf"
    using trim_end_decomp [of "dropWhile is_js_space s"] by (auto simp: trim_trim_end)
  moreover have "s = takeWhile is_js_space s @ dropWhile is_js_space s" by simp
  ultimately have "s = takeWhile is_js_space s @ trim s @ suf" by simp
  then show ?thesis by blast
qed

lemma trim_hd: "trim s \<noteq> [] \<Longrightarrow> \<not> is_js_space (hd (trim s))"
proof -
  assume ne: "trim s \<noteq> []"
  let ?d = "dropWhile is_js_space s"
  obtain suf where d: "?d = trim s @ suf"
    using trim_end_decomp [of ?d] by (auto simp: trim_trim_end)
  have dne: "?d \<noteq> []" unfolding d using ne by simp
  then have "\<not> is_js_space (hd ?d)" by (rule hd_dropWhile)
  moreover have "hd ?d = hd (trim s)" unfolding d using ne by simp
  ultimately show ?thesis by simp
qed

lemma trim_last: "trim s \<noteq> [] \<Longrightarrow> \<not> is_js_space (last (trim s))"
proof -
  assume ne: "trim s \<noteq> []"
  let ?r = "dropWhile is_js_space (rev (dropWhile is_js_space s))"
  have t: "trim s = rev ?r" by (simp add: trim_def)
  with ne have "?r \<noteq> []" by simp
  then have "\<not> is_js_space (hd ?r)" by (rule hd_dropWhile)
  moreover have "last (trim s) = hd ?r" using \<open>?r \<noteq> []\<close> by (simp add: t last_rev)
  ultimately show ?thesis by simp
qed

lemma space_is_js_space: "is_js_space 32"
  by (simp add: is_js_space_def)

lemma two_fields:
  assumes "32 \<in> set (trim s)"
  shows "2 \<le> length (whitespace_fields s)"
proof -
  let ?t = "trim s"
  from assms have ne: "?t \<noteq> []" by auto
  from assms obtain xs ys where t: "?t = xs @ 32 # ys" by (auto simp: in_set_conv_decomp)
  have "xs \<noteq> []" using trim_hd [OF ne] space_is_js_space by (auto simp: t)
  then have hx: "hd ?t \<in> set xs" by (cases xs) (auto simp: t)
  have "ys \<noteq> []" using trim_last [OF ne] space_is_js_space by (auto simp: t)
  then have ly: "last ?t \<in> set ys" by (simp add: t)
  obtain pre suf where s: "s = pre @ ?t @ suf" using trim_decomp by blast
  then have "s = (pre @ xs) @ 32 # (ys @ suf)" by (simp add: t)
  then have "split_on is_js_space s
      = split_on is_js_space (pre @ xs) @ split_on is_js_space (ys @ suf)"
    using split_on_sep [where P = is_js_space and sep = 32 and xs = "pre @ xs" and ys = "ys @ suf",
        OF space_is_js_space] by simp
  then have "whitespace_fields s = whitespace_fields (pre @ xs) @ whitespace_fields (ys @ suf)"
    by (simp add: whitespace_fields_def)
  moreover have "whitespace_fields (pre @ xs) \<noteq> []"
    unfolding whitespace_fields_def
    by (rule split_on_has_field [of "hd ?t"]) (use hx trim_hd [OF ne] in auto)
  moreover have "whitespace_fields (ys @ suf) \<noteq> []"
    unfolding whitespace_fields_def
    by (rule split_on_has_field [of "last ?t"]) (use ly trim_last [OF ne] in auto)
  ultimately show ?thesis
    by (cases "whitespace_fields (pre @ xs)"; cases "whitespace_fields (ys @ suf)") auto
qed

lemma split_space_short: "length (split_space t) < 2 \<longleftrightarrow> 32 \<notin> set t"
  by (auto simp: split_space_def split_on_length filter_empty_conv)

lemma generateFingerprint_cases:
  "generateFingerprint pk =
     (if 32 \<in> set (trim pk)
      then Inr (str ''SHA256:'' @ toUpperCase (hex (sha256 (base64_decode (split_space (trim pk) ! 1)))))
      else Inl (KeyFormatError InvalidPublicKeyFormat))"
  using split_space_short [of "trim pk"] by (auto simp: generateFingerprint_def Let_def)

lemma hd_split_on: "hd (split_on P s) = takeWhile (\<lambda>c. \<not> P c) s"
  by (induction s) (auto split: list.splits)

lemma second_piece:
  "\<exists>c \<in> set s. P c \<Longrightarrow>
     split_on P s ! 1 = takeWhile (\<lambda>c. \<not> P c) (tl (dropWhile (\<lambda>c. \<not> P c) s))"
proof (induction s)
  case Nil
  then show ?case by simp
next
  case (Cons c cs)
  show ?case
  proof (cases "P c")
    case True
    have "split_on P cs ! 0 = hd (split_on P cs)"
      using split_on_nonempty [of P cs] by (simp add: hd_conv_nth)
    with True show ?thesis by (simp add: hd_split_on)
  next
    case False
    with Cons.prems have "\<exists>c \<in> set cs. P c" by auto
    then have ih: "split_on P cs ! 1 = takeWhile (\<lambda>c. \<not> P c) (tl (dropWhile (\<lambda>c. \<not> P c) cs))"
      by (rule Cons.IH)
    obtain p ps where sp: "split_on P cs = p # ps"
      using split_on_nonempty [of P cs] by (cases "split_on P cs") auto
    with False ih show ?thesis by simp
  qed
qed

lemma pem_trim:
  "\<exists>r. trim (export_pem ''PUBLIC KEY'' der)
      = str ''-----BEGIN'' @ 32 # str ''PUBLIC'' @ 32 # (str ''KEY-----'' @ r)"
proof -
  let ?body = "10 # pem_lines (base64_encode der) @ pem_footer"
  have e: "export_pem ''PUBLIC KEY'' der = str ''-----BEGIN PUBLIC KEY----'' @ 45 # ?body"
    by (simp add: export_pem_public pem_header_def str_def)
  have "\<not> is_js_space 45" by (simp add: is_js_space_def)
  then have "trim_end (str ''-----BEGIN PUBLIC KEY----'' @ 45 # ?body)
      = str ''-----BEGIN PUBLIC KEY----'' @ 45 # trim_end ?body"
    by (rule trim_end_keep)
  moreover have "dropWhile is_js_space (export_pem ''PUBLIC KEY'' der) = export_pem ''PUBLIC KEY'' der"
    by (simp add: e str_def is_js_space_def)
  ultimately have "trim (export_pem ''PUBLIC KEY'' der)
      = str ''-----BEGIN PUBLIC KEY----'' @ 45 # trim_end ?body"
    by (simp only: trim_trim_end e)
  also have "\<dots> = str ''-----BEGIN'' @ 32 # str ''PUBLIC'' @ 32 # (str ''KEY-----'' @ trim_end ?body)"
    by (simp add: str_def)
  finally show ?thesis by blast
qed

lemma pem_second_piece: "split_space (trim (export_pem ''PUBLIC KEY'' der)) ! 1 = str ''PUBLIC''"
proof -
  obtain r where t: "trim (export_pem ''PUBLIC KEY'' der)
      = str ''-----BEGIN'' @ 32 # str ''PUBLIC'' @ 32 # (str ''KEY-----'' @ r)"
    using pem_trim by blast
  have a: "split_on (\<lambda>c. c = 32) (str ''-----BEGIN'') = [str ''-----BEGIN'']"
    by (rule split_on_none) (simp add: str_def)
  have b: "split_on (\<lambda>c. c = 32) (str ''PUBLIC'') = [str ''PUBLIC'']"
    by (rule split_on_none) (simp add: str_def)
  have "split_space (trim (export_pem ''PUBLIC KEY'' der))
      = [str ''-----BEGIN''] @ [str ''PUBLIC''] @ split_on (\<lambda>c. c = 32) (str ''KEY-----'' @ r)"
    unfolding split_space_def t
    by (simp only: split_on_sep [where P = "\<lambda>c. c = 32" and sep = 32, OF refl] a b)
  then show ?thesis by simp
qed

lemma pem_has_space: "32 \<in> set (trim (export_pem ''PUBLIC KEY'' der))"
  using pem_trim [of der] by auto

lemma pem_fingerprint:
  "generateFingerprint (export_pem ''PUBLIC KEY'' der)
     = Inr (str ''SHA256:'' @ toUpperCase (hex (sha256 (base64_decode (str ''PUBLIC'')))))"
  unfolding generateFingerprint_cases pem_second_piece
  by (simp add: pem_has_space)

lemma keys_emit_key [simp]: "keys (emit_key e m) = keys m"
  by (simp add: emit_key_def)

lemma addKey_pem:
  "addKey m \<lparr>data_name = n, data_publicKey = export_pem ''PUBLIC KEY'' der, data_privateKey = p\<rparr>
      newId now write_ok
     = (Inl (KeyFormatError UnableToDetermineKeyType),
        emit_key (KeyManagerError (KeyFormatError UnableToDetermineKeyType)) m)"
  by (simp add: addKey_def pem_fingerprint determineKeyType_pem)

lemma generateKeyPair_supported:
  assumes "opt_type options = str ''rsa'' \<or> opt_type options = str ''ecdsa''
             \<or> opt_type options = str ''ed25519''"
  shows "generateKeyPair m options gen newId now write_ok
     = (Inl (KeyFormatError UnableToDetermineKeyType),
        emit_key (KeyManagerError (KeyFormatError UnableToDetermineKeyType))
          (emit_key (KeyManagerError (KeyFormatError UnableToDetermineKeyType)) m))"
  using assms
  by (auto simp: generateKeyPair_def Let_def pem_fingerprint addKey_pem)

lemma trim_decomp_ws:
  "\<exists>pre suf. s = pre @ trim s @ suf \<and> (\<forall>c \<in> set pre. is_js_space c) \<and> (\<forall>c \<in> set suf. is_js_space c)"
proof -
  let ?d = "dropWhile is_js_space s"
  let ?suf = "rev (takeWhile is_js_space (rev ?d))"
  have "rev (dropWhile is_js_space (rev ?d)) @ ?suf
      = rev (takeWhile is_js_space (rev ?d) @ dropWhile is_js_space (rev ?d))"
    by (simp only: rev_append)
  also have "\<dots> = ?d" by (simp only: takeWhile_dropWhile_id rev_rev_ident)
  finally have "?d = trim s @ ?suf" by (simp add: trim_def)
  moreover have "s = takeWhile is_js_space s @ ?d" by simp
  ultimately have "s = takeWhile is_js_space s @ trim s @ ?suf" by simp
  moreover have "\<forall>c \<in> set (takeWhile is_js_space s). is_js_space c"
    by (auto dest: set_takeWhileD)
  moreover have "\<forall>c \<in> set ?suf. is_js_space c"
    by (auto dest: set_takeWhileD)
  ultimately show ?thesis by blast
qed

lemma fields_skip_prefix:
  "\<forall>c \<in> set pre. P c \<Longrightarrow>
     filter (\<lambda>f. f \<noteq> []) (split_on P (pre @ x)) = filter (\<lambda>f. f \<noteq> []) (split_on P x)"
  by (induction pre) auto

lemma hd_split_on_field:
  assumes "\<forall>c \<in> set f. \<not> P c" and "rest = [] \<or> P (hd rest)"
  shows "hd (split_on P (f @ rest)) = f"
proof -
  have "takeWhile (\<lambda>c. \<not> P c) (f @ rest) = f @ takeWhile (\<lambda>c. \<not> P c) rest"
    using assms(1) by (simp add: takeWhile_append2)
  moreover have "takeWhile (\<lambda>c. \<not> P c) rest = []"
    using assms(2) by (cases rest) auto
  ultimately show ?thesis by (simp add: hd_split_on)
qed

lemma second_after_single:
  assumes "\<forall>c \<in> set f1. \<not> P c" and "P sep" and "\<forall>c \<in> set f2. \<not> P c"
    and "rest = [] \<or> P (hd rest)"
  shows "split_on P (f1 @ sep # f2 @ rest) ! 1 = f2"
proof -
  have "split_on P (f1 @ sep # f2 @ rest) = [f1] @ split_on P (f2 @ rest)"
    using assms(1,2) by (simp add: split_on_sep split_on_none)
  then have "split_on P (f1 @ sep # f2 @ rest) ! 1 = hd (split_on P (f2 @ rest))"
    using split_on_nonempty [of P "f2 @ rest"] by (simp add: hd_conv_nth)
  then show ?thesis using hd_split_on_field [OF assms(3,4)] by simp
qed

lemma single_spaced_fields:
  assumes t: "trim pk = f1 @ 32 # f2 @ r"
    and f1: "f1 \<noteq> []" "\<forall>c \<in> set f1. \<not> is_js_space c"
    and f2: "f2 \<noteq> []" "\<forall>c \<in> set f2. \<not> is_js_space c"
    and r: "r = [] \<or> hd r = 32"
  shows "split_space (trim pk) ! 1 = f2" and "whitespace_fields pk ! 1 = f2"
proof -
  have n1: "\<forall>c \<in> set f1. \<not> c = 32" and n2: "\<forall>c \<in> set f2. \<not> c = 32"
    using f1(2) f2(2) space_is_js_space by auto
  show "split_space (trim pk) ! 1 = f2"
    unfolding split_space_def t
    using second_after_single [where P = "\<lambda>c. c = 32", OF n1 refl n2] r by simp
  obtain pre suf where pk: "pk = pre @ trim pk @ suf"
    and pre: "\<forall>c \<in> set pre. is_js_space c" and suf: "\<forall>c \<in> set suf. is_js_space c"
    using trim_decomp_ws by blast
  have rest: "r @ suf = [] \<or> is_js_space (hd (r @ suf))"
    using r suf space_is_js_space by (cases r; cases suf) auto
  have "pk = (pre @ f1) @ 32 # (f2 @ r @ suf)" by (subst pk) (simp add: t)
  then have "split_on is_js_space pk
      = split_on is_js_space (pre @ f1) @ split_on is_js_space (f2 @ r @ suf)"
    using split_on_sep [where P = is_js_space and sep = 32 and xs = "pre @ f1" and ys = "f2 @ r @ suf",
        OF space_is_js_space] by simp
  then have "whitespace_fields pk
      = filter (\<lambda>f. f \<noteq> []) (split_on is_js_space f1)
        @ filter (\<lambda>f. f \<noteq> []) (split_on is_js_space (f2 @ r @ suf))"
    by (simp add: whitespace_fields_def fields_skip_prefix [OF pre])
  also have "split_on is_js_space f1 = [f1]" using f1(2) by (rule split_on_none)
  finally have w: "whitespace_fields pk
      = f1 # filter (\<lambda>f. f \<noteq> []) (split_on is_js_space (f2 @ r @ suf))"
    using f1(1) by simp
  obtain p ps where sp: "split_on is_js_space (f2 @ r @ suf) = p # ps"
    using split_on_nonempty [of is_js_space "f2 @ r @ suf"]
    by (cases "split_on is_js_space (f2 @ r @ suf)") auto
  have "hd (split_on is_js_space (f2 @ (r @ suf))) = f2"
    using f2(2) rest by (rule hd_split_on_field)
  with sp have "p = f2" by simp
  with sp f2(1) w show "whitespace_fields pk ! 1 = f2" by simp
qed

subsection \<open>The exclusive or and Base64 undo themselves\<close>

lemma xor_loop_twice: "xor_loop k i (xor_loop k i bs) = bs"
  by (induction bs arbitrary: i) (simp_all add: xor.assoc)

lemma xor_loop_length [simp]: "length (xor_loop k i bs) = length bs"
  by (induction bs arbitrary: i) simp_all

lemma base64_index_char:
  assumes "n < 64"
  shows "base64_index (base64_char n) = Some n" and "unat (base64_char n) mod 256 \<noteq> 61"
proof -
  consider "n < 26" | "26 \<le> n" "n < 52" | "52 \<le> n" "n < 62" | "n = 62" | "n = 63"
    using assms by linarith
  then show "base64_index (base64_char n) = Some n"
    by cases (auto simp: base64_index_def Let_def base64_char_unat)
  have "unat (base64_char n) mod 256 \<noteq> 61"
    using base64_char_range [OF assms] by auto
  then show "unat (base64_char n) mod 256 \<noteq> 61" .
qed

lemma base64_sextets_char:
  "n < 64 \<Longrightarrow> base64_sextets (base64_char n # cs) = n # base64_sextets cs"
  by (simp add: base64_index_char)

lemma base64_sextets_pad: "base64_sextets (61 # cs) = []"
  by simp

lemma byte_parts:
  fixes a b c :: nat
  assumes "a < 256" "b < 256" "c < 256"
  shows "a div 4 * 4 + (a mod 4 * 16 + b div 16) div 16 = a"
    and "(a mod 4 * 16 + b div 16) mod 16 * 16 + (b mod 16 * 4 + c div 64) div 4 = b"
    and "(b mod 16 * 4 + c div 64) mod 4 * 64 + c mod 64 = c"
    and "a div 4 * 4 + (a mod 4 * 16) div 16 = a"
    and "(a mod 4 * 16 + b div 16) mod 16 * 16 + (b mod 16 * 4) div 4 = b"
proof -
  have b16: "b div 16 < 16" and c64: "c div 64 < 4" using assms by simp_all
  show "a div 4 * 4 + (a mod 4 * 16 + b div 16) div 16 = a"
    using b16 by simp
  show "(a mod 4 * 16 + b div 16) mod 16 * 16 + (b mod 16 * 4 + c div 64) div 4 = b"
    using b16 c64 by simp
  show "(b mod 16 * 4 + c div 64) mod 4 * 64 + c mod 64 = c"
    using c64 by simp
  show "a div 4 * 4 + (a mod 4 * 16) div 16 = a" by simp
  show "(a mod 4 * 16 + b div 16) mod 16 * 16 + (b mod 16 * 4) div 4 = b"
    using b16 by simp
qed

lemma base64_round_trip: "base64_decode (base64_encode bs) = bs"
  unfolding base64_decode_def
proof (induction bs rule: base64_encode.induct)
  case 1
  show ?case by simp
next
  case (2 a)
  show ?case
    using byte_parts(4) [OF unat_byte_lt [of a]]
    by (simp add: base64_sextets_char base64_sextets_pad sextet_bounds del: base64_sextets.simps(2))
next
  case (3 a b)
  show ?case
    using byte_parts(1,5) [OF unat_byte_lt [of a] unat_byte_lt [of b] unat_byte_lt [of b]]
    by (simp add: base64_sextets_char base64_sextets_pad sextet_bounds del: base64_sextets.simps(2))
next
  case (4 a b c rest)
  show ?case
    using byte_parts(1,2,3) [OF unat_byte_lt [of a] unat_byte_lt [of b] unat_byte_lt [of c]] 4
    by (simp add: base64_sextets_char base64_sextets_pad sextet_bounds del: base64_sextets.simps(2))
qed

lemma base64_encode_nonempty: "bs \<noteq> [] \<Longrightarrow> base64_encode bs \<noteq> []"
  by (induction bs rule: base64_encode.induct) simp_all

subsection \<open>UTF-8 undoes itself on well-formed strings\<close>

lemma decode_first_emit:
  "utf8_first b = Emit us \<Longrightarrow> b < 256 \<Longrightarrow>
     utf8_decode_from utf8_initial (word_of_nat b # bs) = us @ utf8_decode_from utf8_initial bs"
  by (simp add: utf8_initial_def unat_word8)

lemma decode_first_start:
  "utf8_first b = Start st \<Longrightarrow> b < 256 \<Longrightarrow>
     utf8_decode_from utf8_initial (word_of_nat b # bs) = utf8_decode_from st bs"
  by (simp add: utf8_initial_def unat_word8)

lemma decode_last:
  assumes "bytes_needed st = bytes_seen st + 1"
    and "lower_boundary st \<le> b" and "b \<le> upper_boundary st" and "b < 256"
    and "c = code_point st * 64 + b mod 64"
  shows "utf8_decode_from st (word_of_nat b # bs)
     = code_point_units c @ utf8_decode_from utf8_initial bs"
  using assms by (simp add: unat_word8 Let_def)

lemma decode_more:
  assumes "bytes_needed st \<noteq> 0" and "bytes_seen st + 1 \<noteq> bytes_needed st"
    and "lower_boundary st \<le> b" and "b \<le> upper_boundary st" and "b < 256"
    and "st' = st\<lparr>code_point := code_point st * 64 + b mod 64,
                    bytes_seen := bytes_seen st + 1,
                    lower_boundary := 0x80, upper_boundary := 0xBF\<rparr>"
  shows "utf8_decode_from st (word_of_nat b # bs) = utf8_decode_from st' bs"
  using assms by (simp add: unat_word8 Let_def)

subsection \<open>Arithmetic of the byte layout\<close>

lemma mod_shift: "(k * m + x) mod m = x mod (m::nat)"
  by simp

lemma mod64_offset: "(128 + x) mod 64 = x mod (64::nat)"
  using mod_shift [of 2 64 x] by simp

lemma lead2_mod: "x < 32 \<Longrightarrow> (192 + x) mod 32 = (x::nat)"
  using mod_shift [of 6 32 x] by simp

lemma lead3_mod: "x < 16 \<Longrightarrow> (224 + x) mod 16 = (x::nat)"
  using mod_shift [of 14 16 x] by simp

lemma lead4_mod: "x < 8 \<Longrightarrow> (240 + x) mod 8 = (x::nat)"
  using mod_shift [of 30 8 x] by simp

lemma div_4096: "c div 4096 = c div 64 div (64::nat)"
  using div_mult2_eq [of c 64 64] by simp

lemma div_262144: "c div 262144 = c div 4096 div (64::nat)"
  using div_mult2_eq [of c 4096 64] by simp

lemma mid_value: "c div 4096 * 64 + (128 + c div 64 mod 64) mod 64 = c div (64::nat)"
  by (simp add: mod64_offset div_4096)

lemma high_value: "c div 262144 * 64 + (128 + c div 4096 mod 64) mod 64 = c div (4096::nat)"
  by (simp add: mod64_offset div_262144)

lemma e0_lower: "c div 4096 = 0 \<Longrightarrow> 0x800 \<le> c \<Longrightarrow> 32 \<le> c div 64 mod (64::nat)"
proof -
  assume a: "c div 4096 = 0" "0x800 \<le> c"
  then have "c div 64 div 64 = 0" by (simp add: div_4096)
  then have "c div 64 mod 64 = c div 64" by (simp add: div_eq_0_iff)
  moreover have "32 \<le> c div 64" using a(2) by simp
  ultimately show ?thesis by simp
qed

lemma ed_upper: "c div 4096 = 13 \<Longrightarrow> c < 0xD800 \<Longrightarrow> c div 64 mod (64::nat) < 32"
proof -
  assume a: "c div 4096 = 13" "c < 0xD800"
  have "c div 64 = c div 64 div 64 * 64 + c div 64 mod 64" by simp
  with a(1) have "c div 64 = 832 + c div 64 mod 64" by (simp add: div_4096)
  moreover have "c div 64 < 864" using a(2) by simp
  ultimately show ?thesis by linarith
qed

lemma f0_lower: "c div 262144 = 0 \<Longrightarrow> 0x10000 \<le> c \<Longrightarrow> 16 \<le> c div 4096 mod (64::nat)"
proof -
  assume a: "c div 262144 = 0" "0x10000 \<le> c"
  then have "c div 4096 div 64 = 0" by (simp add: div_262144)
  then have "c div 4096 mod 64 = c div 4096" by (simp add: div_eq_0_iff)
  moreover have "16 \<le> c div 4096" using a(2) by simp
  ultimately show ?thesis by simp
qed

lemma f4_upper: "c div 262144 = 4 \<Longrightarrow> c < 0x110000 \<Longrightarrow> c div 4096 mod (64::nat) < 16"
proof -
  assume a: "c div 262144 = 4" "c < 0x110000"
  have "c div 4096 = c div 4096 div 64 * 64 + c div 4096 mod 64" by simp
  with a(1) have "c div 4096 = 256 + c div 4096 mod 64" by (simp add: div_262144)
  moreover have "c div 4096 < 272" using a(2) by simp
  ultimately show ?thesis by linarith
qed

lemma pair_div:
  "lo < 1024 \<Longrightarrow> (hi * 1024 + lo) div 1024 = (hi::nat)" "lo < 1024 \<Longrightarrow> (hi * 1024 + lo) mod 1024 = (lo::nat)"
  by simp_all

lemma decode_one_byte:
  assumes "c < 0x80"
  shows "utf8_decode_from utf8_initial (encode_code_point c @ rest)
     = code_point_units c @ utf8_decode_from utf8_initial rest"
proof -
  have "utf8_first c = Emit [word_of_nat c]" using assms by (simp add: utf8_first_def)
  from decode_first_emit [OF this] assms show ?thesis
    by (simp add: encode_code_point_def code_point_units_def)
qed

lemma decode_two_bytes:
  assumes "0x80 \<le> c" and "c < 0x800"
  shows "utf8_decode_from utf8_initial (encode_code_point c @ rest)
     = code_point_units c @ utf8_decode_from utf8_initial rest"
proof -
  let ?b1 = "192 + c div 64" and ?b2 = "128 + c mod 64"
  let ?st = "utf8_initial\<lparr>bytes_needed := 1, code_point := c div 64\<rparr>"
  have r1: "2 \<le> c div 64" "c div 64 < 32" using assms by simp_all
  have "utf8_first ?b1 = Start ?st"
    using r1 by (simp add: utf8_first_def lead2_mod)
  then have s1: "utf8_decode_from utf8_initial (word_of_nat ?b1 # word_of_nat ?b2 # rest)
      = utf8_decode_from ?st (word_of_nat ?b2 # rest)"
    using r1 by (intro decode_first_start) simp_all
  have s2: "utf8_decode_from ?st (word_of_nat ?b2 # rest)
      = code_point_units c @ utf8_decode_from utf8_initial rest"
    by (rule decode_last) (simp_all add: utf8_initial_def mod64_offset)
  have "encode_code_point c = [word_of_nat ?b1, word_of_nat ?b2]"
    using assms by (simp add: encode_code_point_def del: of_nat_add)
  then show ?thesis
    using s1 s2 by (simp del: of_nat_add utf8_decode_from.simps)
qed

lemma decode_three_bytes:
  assumes "0x800 \<le> c" and "c < 0x10000" and "\<not> (0xD800 \<le> c \<and> c \<le> 0xDFFF)"
  shows "utf8_decode_from utf8_initial (encode_code_point c @ rest)
     = code_point_units c @ utf8_decode_from utf8_initial rest"
proof -
  let ?b1 = "224 + c div 4096" and ?b2 = "128 + c div 64 mod 64" and ?b3 = "128 + c mod 64"
  let ?st1 = "utf8_initial\<lparr>bytes_needed := 2, code_point := c div 4096,
                 lower_boundary := (if c div 4096 = 0 then 160 else 128),
                 upper_boundary := (if c div 4096 = 13 then 159 else 191)\<rparr>"
  let ?st2 = "\<lparr>code_point = c div 64, bytes_seen = 1, bytes_needed = 2,
               lower_boundary = 128, upper_boundary = 191\<rparr>"
  have r1: "c div 4096 < 16" using assms by simp
  have "utf8_first ?b1 = Start ?st1"
    using r1 by (simp add: utf8_first_def lead3_mod)
  then have s1: "utf8_decode_from utf8_initial (word_of_nat ?b1 # word_of_nat ?b2 # word_of_nat ?b3 # rest)
      = utf8_decode_from ?st1 (word_of_nat ?b2 # word_of_nat ?b3 # rest)"
    using r1 by (intro decode_first_start) simp_all
  have lo: "lower_boundary ?st1 \<le> ?b2"
    using e0_lower [of c] assms(1) by simp
  have hi: "?b2 \<le> upper_boundary ?st1"
  proof (cases "c div 4096 = 13")
    case True
    have "c < 0xD800"
    proof (rule ccontr)
      assume "\<not> c < 0xD800"
      with assms(3) have "0xE000 \<le> c" by simp
      then have "14 \<le> c div 4096" by simp
      with True show False by simp
    qed
    with True ed_upper [of c] show ?thesis by simp
  next
    case False
    have "c div 64 mod 64 < 64" by simp
    with False show ?thesis by simp
  qed
  have s2: "utf8_decode_from ?st1 (word_of_nat ?b2 # word_of_nat ?b3 # rest)
      = utf8_decode_from ?st2 (word_of_nat ?b3 # rest)"
    using lo hi by (intro decode_more) (simp_all add: utf8_initial_def mid_value)
  have s3: "utf8_decode_from ?st2 (word_of_nat ?b3 # rest)
      = code_point_units c @ utf8_decode_from utf8_initial rest"
    by (rule decode_last) (simp_all add: mod64_offset)
  have "encode_code_point c = [word_of_nat ?b1, word_of_nat ?b2, word_of_nat ?b3]"
    using assms by (simp add: encode_code_point_def del: of_nat_add)
  then show ?thesis
    using s1 s2 s3 by (simp del: of_nat_add utf8_decode_from.simps)
qed

lemma decode_four_bytes:
  assumes "0x10000 \<le> c" and "c < 0x110000"
  shows "utf8_decode_from utf8_initial (encode_code_point c @ rest)
     = code_point_units c @ utf8_decode_from utf8_initial rest"
proof -
  let ?b1 = "240 + c div 262144" and ?b2 = "128 + c div 4096 mod 64"
  let ?b3 = "128 + c div 64 mod 64" and ?b4 = "128 + c mod 64"
  let ?st1 = "utf8_initial\<lparr>bytes_needed := 3, code_point := c div 262144,
                 lower_boundary := (if c div 262144 = 0 then 144 else 128),
                 upper_boundary := (if c div 262144 = 4 then 143 else 191)\<rparr>"
  let ?st2 = "\<lparr>code_point = c div 4096, bytes_seen = 1, bytes_needed = 3,
               lower_boundary = 128, upper_boundary = 191\<rparr>"
  let ?st3 = "\<lparr>code_point = c div 64, bytes_seen = 2, bytes_needed = 3,
               lower_boundary = 128, upper_boundary = 191\<rparr>"
  let ?tail3 = "word_of_nat ?b3 # word_of_nat ?b4 # rest"
  have r1: "c div 262144 < 5" using assms by simp
  have "utf8_first ?b1 = Start ?st1"
    using r1 by (simp add: utf8_first_def lead4_mod)
  then have s1: "utf8_decode_from utf8_initial (word_of_nat ?b1 # word_of_nat ?b2 # ?tail3)
      = utf8_decode_from ?st1 (word_of_nat ?b2 # ?tail3)"
    using r1 by (intro decode_first_start) simp_all
  have lo: "lower_boundary ?st1 \<le> ?b2"
    using f0_lower [of c] assms(1) by simp
  have hi: "?b2 \<le> upper_boundary ?st1"
  proof (cases "c div 262144 = 4")
    case True
    with f4_upper [of c] assms(2) show ?thesis by simp
  next
    case False
    have "c div 4096 mod 64 < 64" by simp
    with False show ?thesis by simp
  qed
  have s2: "utf8_decode_from ?st1 (word_of_nat ?b2 # ?tail3) = utf8_decode_from ?st2 ?tail3"
    using lo hi by (intro decode_more) (simp_all add: utf8_initial_def high_value)
  have s3: "utf8_decode_from ?st2 ?tail3 = utf8_decode_from ?st3 (word_of_nat ?b4 # rest)"
    by (intro decode_more) (simp_all add: mid_value)
  have s4: "utf8_decode_from ?st3 (word_of_nat ?b4 # rest)
      = code_point_units c @ utf8_decode_from utf8_initial rest"
    by (rule decode_last) (simp_all add: mod64_offset)
  have "encode_code_point c
      = [word_of_nat ?b1, word_of_nat ?b2, word_of_nat ?b3, word_of_nat ?b4]"
    using assms by (simp add: encode_code_point_def del: of_nat_add)
  then show ?thesis
    using s1 s2 s3 s4 by (simp del: of_nat_add utf8_decode_from.simps)
qed

lemma decode_code_point:
  "scalar_value c \<Longrightarrow>
     utf8_decode_from utf8_initial (encode_code_point c @ rest)
       = code_point_units c @ utf8_decode_from utf8_initial rest"
proof -
  assume s: "scalar_value c"
  consider "c < 0x80" | "0x80 \<le> c" "c < 0x800" | "0x800 \<le> c" "c < 0x10000" | "0x10000 \<le> c"
    by linarith
  then show ?thesis
  proof cases
    case 1
    then show ?thesis by (rule decode_one_byte)
  next
    case 2
    then show ?thesis by (rule decode_two_bytes)
  next
    case 3
    then show ?thesis using s by (intro decode_three_bytes) (simp_all add: scalar_value_def)
  next
    case 4
    then show ?thesis using s by (intro decode_four_bytes) (simp_all add: scalar_value_def)
  qed
qed

lemma unit_scalar: "\<not> is_surrogate u \<Longrightarrow> scalar_value (unat u)"
  using unat_unit_lt [of u] by (simp add: is_surrogate_def scalar_value_def)

lemma unit_units: "code_point_units (unat (u :: 16 word)) = [u]"
  using unat_unit_lt [of u] by (simp add: code_point_units_def)

lemma pair_scalar:
  "is_high_surrogate hi \<Longrightarrow> is_low_surrogate lo \<Longrightarrow> scalar_value (pair_code_point hi lo)"
  unfolding is_high_surrogate_def is_low_surrogate_def scalar_value_def pair_code_point_def
  by simp linarith

lemma pair_units:
  assumes "is_high_surrogate hi" and "is_low_surrogate lo"
  shows "code_point_units (pair_code_point hi lo) = [hi, lo]"
proof -
  let ?h = "unat hi - 0xD800" and ?l = "unat lo - 0xDC00"
  have l: "?l < 1024" using assms(2) unfolding is_low_surrogate_def by linarith
  have p: "pair_code_point hi lo - 0x10000 = ?h * 1024 + ?l"
    by (simp add: pair_code_point_def)
  have d: "(?h * 1024 + ?l) div 1024 = ?h" by (rule pair_div(1) [OF l])
  have m: "(?h * 1024 + ?l) mod 1024 = ?l" by (rule pair_div(2) [OF l])
  have e1: "0xD800 + (pair_code_point hi lo - 0x10000) div 1024 = unat hi"
  proof -
    have "0xD800 + (pair_code_point hi lo - 0x10000) div 1024 = 0xD800 + ?h"
      by (simp only: p d)
    also have "\<dots> = unat hi" using assms(1) unfolding is_high_surrogate_def by linarith
    finally show ?thesis .
  qed
  have e2: "0xDC00 + (pair_code_point hi lo - 0x10000) mod 1024 = unat lo"
  proof -
    have "0xDC00 + (pair_code_point hi lo - 0x10000) mod 1024 = 0xDC00 + ?l"
      by (simp only: p m)
    also have "\<dots> = unat lo" using assms(2) unfolding is_low_surrogate_def by linarith
    finally show ?thesis .
  qed
  have big: "\<not> pair_code_point hi lo < 0x10000" by (simp add: pair_code_point_def)
  have "code_point_units (pair_code_point hi lo)
      = [word_of_nat (0xD800 + (pair_code_point hi lo - 0x10000) div 1024),
         word_of_nat (0xDC00 + (pair_code_point hi lo - 0x10000) mod 1024)]"
    unfolding code_point_units_def using big by (simp only: if_False)
  also have "\<dots> = [hi, lo]" by (simp only: e1 e2) simp
  finally show ?thesis .
qed

lemma utf8_round_trip_from:
  "well_formed_utf16 s \<Longrightarrow> utf8_decode_from utf8_initial (utf8_encode s) = s"
proof (induction s rule: utf8_encode.induct)
  case 1
  show ?case by (simp add: utf8_initial_def)
next
  case (2 u)
  then have "scalar_value (unat u)" by (simp add: unit_scalar)
  from decode_code_point [OF this, of "[]"] 2 show ?case
    by (simp add: unit_units utf8_initial_def)
next
  case (3 u v rest)
  show ?case
  proof (cases "is_high_surrogate u \<and> is_low_surrogate v")
    case True
    with 3 have ih: "utf8_decode_from utf8_initial (utf8_encode rest) = rest" by simp
    from True have "scalar_value (pair_code_point u v)" by (simp add: pair_scalar)
    from decode_code_point [OF this, of "utf8_encode rest"] True ih show ?thesis
      by (simp add: pair_units)
  next
    case False
    with 3 have ns: "\<not> is_surrogate u" and wf: "well_formed_utf16 (v # rest)" by simp_all
    with 3 False have ih: "utf8_decode_from utf8_initial (utf8_encode (v # rest)) = v # rest"
      by simp
    from ns have "scalar_value (unat u)" by (rule unit_scalar)
    from decode_code_point [OF this, of "utf8_encode (v # rest)"] False ns ih show ?thesis
      by (auto simp: unit_units)
  qed
qed

lemma utf8_round_trip: "well_formed_utf16 s \<Longrightarrow> utf8_decode (utf8_encode s) = s"
  by (simp add: utf8_decode_def utf8_round_trip_from)

lemma encode_code_point_nonempty: "encode_code_point c \<noteq> []"
  by (simp add: encode_code_point_def)

lemma utf8_encode_nonempty: "s \<noteq> [] \<Longrightarrow> utf8_encode s \<noteq> []"
  by (induction s rule: utf8_encode.induct) (simp_all add: encode_code_point_nonempty)

lemma encrypt_decrypt:
  assumes "well_formed_utf16 x" and "encryptionKey m = Some k"
  shows "encryptPrivateKey m x = Inr (base64_encode (xor_loop k 0 (utf8_encode x)))"
    and "decryptPrivateKey m (base64_encode (xor_loop k 0 (utf8_encode x))) = Inr x"
  using assms
  by (simp_all add: encryptPrivateKey_def decryptPrivateKey_def base64_round_trip xor_loop_twice
      utf8_round_trip)

lemma ciphertext_nonempty: "x \<noteq> [] \<Longrightarrow> base64_encode (xor_loop k 0 (utf8_encode x)) \<noteq> []"
proof -
  assume "x \<noteq> []"
  then have "utf8_encode x \<noteq> []" by (rule utf8_encode_nonempty)
  then have "xor_loop k 0 (utf8_encode x) \<noteq> []"
    using xor_loop_length [of k 0 "utf8_encode x"] by (metis length_0_conv)
  then show ?thesis by (rule base64_encode_nonempty)
qed

lemma addKey_stored:
  assumes "addKey m d newId now w = (Inr key, m')" and "data_privateKey d = Some x" and "x \<noteq> []"
  shows "\<exists>k. encryptionKey m = Some k \<and> encryptionKey m' = Some k \<and> key_id key = newId
     \<and> map_of (keys m') newId = Some key
     \<and> privateKey key = Some (base64_encode (xor_loop k 0 (utf8_encode x)))"
  using assms
  by (auto simp: addKey_def Let_def encryptPrivateKey_def emit_key_def update_conv'
      split: sum.splits option.splits if_splits)

lemma sha256_ABC:
  "toUpperCase (hex (sha256 [65, 66, 67]))
     = str ''B5D4045C3F466FA91FE2CC6ABE79232A1A57CDF104F7A26E716E0A1E2789DF78''"
  by code_simp

lemma example_trim: "trim (str ''ssh-ed25519 QUJD me@host'') = str ''ssh-ed25519 QUJD me@host''"
  by (simp add: trim_def is_js_space_def str_def)

lemma example_fingerprint:
  "generateFingerprint (str ''ssh-ed25519 QUJD me@host'')
     = Inr (str ''SHA256:B5D4045C3F466FA91FE2CC6ABE79232A1A57CDF104F7A26E716E0A1E2789DF78'')"
proof -
  have "split_space (str ''ssh-ed25519 QUJD me@host'') = [str ''ssh-ed25519'', str ''QUJD'', str ''me@host'']"
    by (simp add: split_space_def str_def)
  moreover have "base64_decode (str ''QUJD'') = [65, 66, 67]"
    by (simp add: base64_decode_def base64_index_def Let_def str_def)
  ultimately show ?thesis
    by (simp add: generateFingerprint_def example_trim sha256_ABC Let_def) (simp add: str_def)
qed

lemma example_type: "determineKeyType (str ''ssh-ed25519 QUJD me@host'') = Inr Ed25519"
  by (simp add: determineKeyType_def str_def)

lemma example_encrypt:
  "encryptPrivateKey example_key_manager [0x6B, 0xE9, 0x20AC, 0xD83D, 0xDE00]
     = Inr (str ''MZnzuNj2qsXC2g=='')"
  by (simp add: example_key_manager_def initializeEncryptionKey_def new_key_manager_def
      encryptPrivateKey_def is_surrogate_def is_high_surrogate_def is_low_surrogate_def
      pair_code_point_def encode_code_point_def key_byte_def base64_char_def str_def)

lemma example_addKey:
  "addKey example_key_manager example_key_data (str ''id1'') 0 True
     = (Inr example_key,
        emit_key (KeyAdded example_key)
          (example_key_manager\<lparr>keys := [(str ''id1'', example_key)],
                                 key_files := [(str ''id1'', example_key)]\<rparr>))"
  by (simp add: addKey_def example_key_data_def example_fingerprint example_type example_encrypt
      truthy_def example_key_def Let_def)
     (simp add: example_key_manager_def initializeEncryptionKey_def new_key_manager_def)

lemma example_stored_keys: "keys example_stored = [(str ''id1'', example_key)]"
  by (simp add: example_stored_def example_addKey)

subsection \<open>Listing keys\<close>

text \<open>
  C1. In every state of the key manager, every record that \<open>listKeys\<close> returns has no
  private key: the field is absent whatever the stored record holds, so also right after an
  \<open>addKey\<close> that was given private key material.
\<close>

theorem listKeys_never_exposes_private_keys:
  "\<forall>key \<in> set (listKeys m). privateKey key = None"
  by (auto simp: listKeys_def)

theorem listKeys_never_exposes_private_keys_witness:
  "map (\<lambda>key. privateKey key) (map snd (keys example_stored)) = [Some (str ''MZnzuNj2qsXC2g=='')]
   \<and> listKeys example_stored = [example_key\<lparr>privateKey := None\<rparr>]
   \<and> privateKey (hd (listKeys example_stored)) = None"
proof -
  have l: "listKeys example_stored = [example_key\<lparr>privateKey := None\<rparr>]"
    by (simp add: listKeys_def example_stored_keys)
  then have "hd (listKeys example_stored) \<in> set (listKeys example_stored)" by simp
  then have "privateKey (hd (listKeys example_stored)) = None"
    using listKeys_never_exposes_private_keys [of example_stored] by blast
  then show ?thesis using l by (simp add: example_stored_keys example_key_def)
qed

subsection \<open>Encrypting and decrypting private keys\<close>

text \<open>
  C2 (as amended). For every plaintext that is well-formed UTF-16 (no unpaired surrogate)
  and every encryption key (so every key of 32 bytes), decrypting what \<open>encryptPrivateKey\<close>
  returns gives the plaintext back; and after an \<open>addKey\<close> that stored such a plaintext,
  non-empty, \<open>getPrivateKey\<close> of the new record returns it.
\<close>

theorem private_key_round_trip:
  assumes "well_formed_utf16 x" and "encryptionKey m = Some k"
  shows "(\<exists>c. encryptPrivateKey m x = Inr c \<and> decryptPrivateKey m c = Inr x)
     \<and> (\<forall>d newId now w key m'.
          x \<noteq> [] \<and> data_privateKey d = Some x \<and> addKey m d newId now w = (Inr key, m')
          \<longrightarrow> getPrivateKey m' (key_id key) = (Inr (Some x), m'))"
proof (intro conjI allI impI)
  show "\<exists>c. encryptPrivateKey m x = Inr c \<and> decryptPrivateKey m c = Inr x"
    using encrypt_decrypt [OF assms] by blast
next
  fix d newId now w key m'
  assume a: "x \<noteq> [] \<and> data_privateKey d = Some x \<and> addKey m d newId now w = (Inr key, m')"
  then obtain k' where k': "encryptionKey m = Some k'" "encryptionKey m' = Some k'"
    "key_id key = newId" "map_of (keys m') newId = Some key"
    "privateKey key = Some (base64_encode (xor_loop k' 0 (utf8_encode x)))"
    using addKey_stored [of m d newId now w key m' x] by blast
  have "decryptPrivateKey m' (base64_encode (xor_loop k' 0 (utf8_encode x))) = Inr x"
    using encrypt_decrypt(2) [OF assms(1) k'(2)] .
  with a k' show "getPrivateKey m' (key_id key) = (Inr (Some x), m')"
    by (simp add: getPrivateKey_def ciphertext_nonempty)
qed

theorem private_key_round_trip_witness:
  "well_formed_utf16 [0x6B, 0xE9, 0x20AC, 0xD83D, 0xDE00]
   \<and> encryptionKey example_key_manager = Some (replicate 32 0x5A)
   \<and> encryptPrivateKey example_key_manager [0x6B, 0xE9, 0x20AC, 0xD83D, 0xDE00]
       = Inr (str ''MZnzuNj2qsXC2g=='')
   \<and> decryptPrivateKey example_key_manager (str ''MZnzuNj2qsXC2g=='')
       = Inr [0x6B, 0xE9, 0x20AC, 0xD83D, 0xDE00]
   \<and> getPrivateKey example_stored (str ''id1'')
       = (Inr (Some [0x6B, 0xE9, 0x20AC, 0xD83D, 0xDE00]), example_stored)"
proof -
  let ?x = "[0x6B, 0xE9, 0x20AC, 0xD83D, 0xDE00] :: jsstring"
  have wf: "well_formed_utf16 ?x"
    by (simp add: is_surrogate_def is_high_surrogate_def is_low_surrogate_def)
  have ek: "encryptionKey example_key_manager = Some (replicate 32 0x5A)"
    by (simp add: example_key_manager_def initializeEncryptionKey_def new_key_manager_def)
  note rt = private_key_round_trip [OF wf ek]
  from rt have "decryptPrivateKey example_key_manager (str ''MZnzuNj2qsXC2g=='') = Inr ?x"
    by (simp add: example_encrypt)
  moreover have ak: "addKey example_key_manager example_key_data (str ''id1'') 0 True
      = (Inr example_key, example_stored)"
    by (simp add: example_stored_def example_addKey)
  from rt have "?x \<noteq> [] \<and> data_privateKey example_key_data = Some ?x
        \<and> addKey example_key_manager example_key_data (str ''id1'') 0 True
            = (Inr example_key, example_stored)
      \<longrightarrow> getPrivateKey example_stored (key_id example_key) = (Inr (Some ?x), example_stored)"
    by blast
  with ak have "getPrivateKey example_stored (key_id example_key) = (Inr (Some ?x), example_stored)"
    by (simp add: example_key_data_def)
  ultimately show ?thesis using wf ek by (simp add: example_encrypt example_key_def)
qed

text \<open>
  C2 as stated fails: a string that holds an unpaired surrogate is a JavaScript string, it is
  written to UTF-8 as U+FFFD, and that is what comes back.
\<close>

theorem lone_surrogate_not_restored:
  "encryptPrivateKey example_key_manager [0xD800] = Inr (str ''teXn'')
   \<and> decryptPrivateKey example_key_manager (str ''teXn'') = Inr [0xFFFD]"
  by (simp add: example_key_manager_def initializeEncryptionKey_def new_key_manager_def
      encryptPrivateKey_def decryptPrivateKey_def is_surrogate_def key_byte_def
      base64_char_def base64_decode_def base64_index_def utf8_decode_def utf8_initial_def
      utf8_first_def code_point_units_def str_def Let_def)

subsection \<open>Generating a key pair\<close>

text \<open>
  C3 (fails on the code). \<open>generateKeyPair\<close> with the type \<open>ed25519\<close> never succeeds:
  whatever pair the runtime generates, the exported public key starts with
  \<open>-----BEGIN PUBLIC KEY-----\<close>, which holds none of the markers of \<open>determineKeyType\<close>, so
  \<open>addKey\<close> throws \<open>Unable to determine key type\<close>, and no record is stored or listed.
\<close>

theorem generateKeyPair_ed25519_fails:
  "generateKeyPair m \<lparr>opt_type = str ''ed25519'', opt_size = sz, opt_name = n\<rparr> gen newId now write_ok
     = (Inl (KeyFormatError UnableToDetermineKeyType),
        emit_key (KeyManagerError (KeyFormatError UnableToDetermineKeyType))
          (emit_key (KeyManagerError (KeyFormatError UnableToDetermineKeyType)) m))
   \<and> listKeys (snd (generateKeyPair m \<lparr>opt_type = str ''ed25519'', opt_size = sz, opt_name = n\<rparr>
          gen newId now write_ok)) = listKeys m"
  by (simp add: generateKeyPair_supported listKeys_def)

subsection \<open>Fingerprints\<close>

text \<open>
  What follows the second field matters: in \<open>ssh-rsa QUJD<TAB>me\<close> the piece after the first
  space runs to the end of the text, and its decoding has one byte more than the decoding of
  the second whitespace-separated field.
\<close>

lemma field_followed_by_tab:
  "whitespace_fields (str ''ssh-rsa QUJD'' @ 9 # str ''me'') ! 1 = str ''QUJD''
   \<and> split_space (trim (str ''ssh-rsa QUJD'' @ 9 # str ''me'')) ! 1 = str ''QUJD'' @ 9 # str ''me''
   \<and> base64_decode (str ''QUJD'' @ 9 # str ''me'') = [65, 66, 67, 153]
   \<and> base64_decode (str ''QUJD'') = [65, 66, 67]"
  by (simp add: whitespace_fields_def split_space_def trim_def is_js_space_def str_def
      base64_decode_def base64_index_def Let_def)

text \<open>
  The decoder reads the low byte of a code unit: U+0141 counts as \<open>A\<close>.
\<close>

lemma base64_decode_low_byte:
  "base64_decode [81, 321, 74, 68] = [64, 2, 67]"
  by (simp add: base64_decode_def base64_index_def Let_def)

text \<open>
  C5 (as amended). \<open>generateFingerprint\<close> is a function of the public key text alone. It
  trims the text and cuts it at every single space character (U+0020), not at other white
  space. When the trimmed text holds a space character, it returns \<open>SHA256:\<close> followed by
  the uppercase hexadecimal SHA-256 digest of the Base64 decoding of the text between the
  first space character and the second one (or the end of the text, if there is no second
  one); otherwise it fails with \<open>KeyFormatError\<close>. So every text with fewer than two
  whitespace-separated fields fails. The digest is that of the second whitespace-separated
  field for every text whose trimmed form is the first field, one space character, the
  second field, and then either nothing or a rest that begins with a space character.
\<close>

theorem generateFingerprint_splits_at_single_spaces:
  "generateFingerprint pk =
     (if 32 \<in> set (trim pk)
      then Inr (str ''SHA256:'' @ toUpperCase (hex (sha256 (base64_decode
                  (takeWhile (\<lambda>c. c \<noteq> 32) (tl (dropWhile (\<lambda>c. c \<noteq> 32) (trim pk))))))))
      else Inl (KeyFormatError InvalidPublicKeyFormat))
   \<and> (length (whitespace_fields pk) < 2
        \<longrightarrow> generateFingerprint pk = Inl (KeyFormatError InvalidPublicKeyFormat))
   \<and> (\<forall>f1 f2 r. trim pk = f1 @ 32 # f2 @ r \<and> f1 \<noteq> [] \<and> f2 \<noteq> []
          \<and> (\<forall>c \<in> set (f1 @ f2). \<not> is_js_space c) \<and> (r = [] \<or> hd r = 32)
        \<longrightarrow> whitespace_fields pk ! 1 = f2
            \<and> generateFingerprint pk
                = Inr (str ''SHA256:'' @ toUpperCase (hex (sha256 (base64_decode f2)))))"
proof (intro conjI allI impI)
  have "split_space (trim pk) ! 1
      = takeWhile (\<lambda>c. c \<noteq> 32) (tl (dropWhile (\<lambda>c. c \<noteq> 32) (trim pk)))"
    if "32 \<in> set (trim pk)"
    unfolding split_space_def
    using second_piece [where P = "\<lambda>c. c = 32" and s = "trim pk"] that by auto
  then show "generateFingerprint pk =
     (if 32 \<in> set (trim pk)
      then Inr (str ''SHA256:'' @ toUpperCase (hex (sha256 (base64_decode
                  (takeWhile (\<lambda>c. c \<noteq> 32) (tl (dropWhile (\<lambda>c. c \<noteq> 32) (trim pk))))))))
      else Inl (KeyFormatError InvalidPublicKeyFormat))"
    unfolding generateFingerprint_cases by (cases "32 \<in> set (trim pk)") simp_all
next
  assume "length (whitespace_fields pk) < 2"
  then have "32 \<notin> set (trim pk)" using two_fields [of pk] by auto
  then show "generateFingerprint pk = Inl (KeyFormatError InvalidPublicKeyFormat)"
    by (simp add: generateFingerprint_cases)
next
  fix f1 f2 r
  assume a: "trim pk = f1 @ 32 # f2 @ r \<and> f1 \<noteq> [] \<and> f2 \<noteq> []
          \<and> (\<forall>c \<in> set (f1 @ f2). \<not> is_js_space c) \<and> (r = [] \<or> hd r = 32)"
  then have s: "split_space (trim pk) ! 1 = f2" and w: "whitespace_fields pk ! 1 = f2"
    using single_spaced_fields [of pk f1 f2 r] by auto
  show "whitespace_fields pk ! 1 = f2" by (rule w)
  have "32 \<in> set (trim pk)" using a by auto
  then show "generateFingerprint pk
      = Inr (str ''SHA256:'' @ toUpperCase (hex (sha256 (base64_decode f2))))"
    unfolding generateFingerprint_cases s by simp
qed

theorem generateFingerprint_splits_at_single_spaces_witness:
  "generateFingerprint (str ''ssh-ed25519 QUJD me@host'')
     = Inr (str ''SHA256:B5D4045C3F466FA91FE2CC6ABE79232A1A57CDF104F7A26E716E0A1E2789DF78'')
   \<and> whitespace_fields (str ''ssh-ed25519 QUJD me@host'') ! 1 = str ''QUJD''
   \<and> length (whitespace_fields (str ''ssh-ed25519'')) < 2
   \<and> generateFingerprint (str ''ssh-ed25519'') = Inl (KeyFormatError InvalidPublicKeyFormat)"
proof -
  let ?pk = "str ''ssh-ed25519 QUJD me@host''"
  have t: "trim ?pk = str ''ssh-ed25519'' @ 32 # str ''QUJD'' @ str '' me@host''"
    by (simp add: example_trim) (simp add: str_def)
  have ok: "trim ?pk = str ''ssh-ed25519'' @ 32 # str ''QUJD'' @ str '' me@host''
      \<and> str ''ssh-ed25519'' \<noteq> [] \<and> str ''QUJD'' \<noteq> []
      \<and> (\<forall>c \<in> set (str ''ssh-ed25519'' @ str ''QUJD''). \<not> is_js_space c)
      \<and> (str '' me@host'' = [] \<or> hd (str '' me@host'') = 32)"
    using t by (simp add: str_def is_js_space_def)
  have two: "whitespace_fields ?pk ! 1 = str ''QUJD''
      \<and> generateFingerprint ?pk
          = Inr (str ''SHA256:'' @ toUpperCase (hex (sha256 (base64_decode (str ''QUJD'')))))"
    using generateFingerprint_splits_at_single_spaces [of ?pk] ok by blast
  have few: "length (whitespace_fields (str ''ssh-ed25519'')) < 2"
    by (simp add: whitespace_fields_def is_js_space_def str_def)
  then have "generateFingerprint (str ''ssh-ed25519'') = Inl (KeyFormatError InvalidPublicKeyFormat)"
    using generateFingerprint_splits_at_single_spaces [of "str ''ssh-ed25519''"] by blast
  then show ?thesis using two few by (simp add: example_fingerprint)
qed

text \<open>
  C5 as stated fails: a key whose two fields are separated by a tab has two
  whitespace-separated fields, and \<open>generateFingerprint\<close> rejects it.
\<close>

theorem tab_separated_key_rejected:
  "length (whitespace_fields (str ''ssh-rsa'' @ 9 # str ''QUJD'')) = 2
   \<and> generateFingerprint (str ''ssh-rsa'' @ 9 # str ''QUJD'') = Inl (KeyFormatError InvalidPublicKeyFormat)"
  by (simp add: whitespace_fields_def generateFingerprint_def split_space_def trim_def
      is_js_space_def str_def)

subsection \<open>Reading a private key\<close>

text \<open>
  C10. \<open>getPrivateKey\<close> returns null, raises nothing and changes nothing when the identifier
  is not in the store or the stored record has no private key material; whenever it fails,
  the record exists, holds private key material, and it is the decryption of that material
  that failed, with the same error.
\<close>

theorem getPrivateKey_null_without_material:
  "((case map_of (keys m) keyId of None \<Rightarrow> True | Some key \<Rightarrow> \<not> truthy (privateKey key))
      \<longrightarrow> getPrivateKey m keyId = (Inr None, m))
   \<and> (fst (getPrivateKey m keyId) = Inl e
      \<longrightarrow> (\<exists>key c. map_of (keys m) keyId = Some key \<and> privateKey key = Some c \<and> c \<noteq> []
             \<and> decryptPrivateKey m c = Inl e))"
  by (auto simp: getPrivateKey_def truthy_def split: option.splits sum.splits if_splits)

theorem getPrivateKey_null_without_material_witness:
  "getPrivateKey example_stored (str ''id2'') = (Inr None, example_stored)
   \<and> getPrivateKey (example_stored\<lparr>keys := [(str ''id1'', example_key\<lparr>privateKey := None\<rparr>)]\<rparr>)
        (str ''id1'')
       = (Inr None, example_stored\<lparr>keys := [(str ''id1'', example_key\<lparr>privateKey := None\<rparr>)]\<rparr>)
   \<and> fst (getPrivateKey (example_stored\<lparr>encryptionKey := None\<rparr>) (str ''id1''))
       = Inl EncryptionKeyUnavailable
   \<and> decryptPrivateKey (example_stored\<lparr>encryptionKey := None\<rparr>) (str ''MZnzuNj2qsXC2g=='')
       = Inl EncryptionKeyUnavailable"
proof -
  let ?m2 = "example_stored\<lparr>keys := [(str ''id1'', example_key\<lparr>privateKey := None\<rparr>)]\<rparr>"
  let ?m3 = "example_stored\<lparr>encryptionKey := None\<rparr>"
  have h1: "case map_of (keys example_stored) (str ''id2'') of None \<Rightarrow> True
            | Some key \<Rightarrow> \<not> truthy (privateKey key)"
    by (simp add: example_stored_keys str_def)
  have h2: "case map_of (keys ?m2) (str ''id1'') of None \<Rightarrow> True
            | Some key \<Rightarrow> \<not> truthy (privateKey key)"
    by (simp add: truthy_def)
  have h3: "fst (getPrivateKey ?m3 (str ''id1'')) = Inl EncryptionKeyUnavailable"
    by (simp add: getPrivateKey_def example_stored_keys example_key_def decryptPrivateKey_def str_def)
  have "decryptPrivateKey ?m3 (str ''MZnzuNj2qsXC2g=='') = Inl EncryptionKeyUnavailable"
    using getPrivateKey_null_without_material [of ?m3 "str ''id1''" EncryptionKeyUnavailable] h3
    by (auto simp: example_stored_keys example_key_def)
  then show ?thesis
    using getPrivateKey_null_without_material [of example_stored "str ''id2''"]
      getPrivateKey_null_without_material [of ?m2 "str ''id1''"] h1 h2 h3
    by simp
qed

end
